theory Spec2Isabelle
  imports Main "HOL-Library.Sublist" "HOL-Library.AList"
begin

section \<open>Go values used by the program\<close>

text \<open>
  A Go \<^verbatim>\<open>string\<close> is a sequence of bytes: \<^typ>\<open>string\<close>.
  A Go \<^verbatim>\<open>map[K]V\<close> is an association list with pairwise distinct keys.  A lookup is
  \<^const>\<open>map_of\<close>, the assignment \<^verbatim>\<open>m[k] = v\<close> is \<^const>\<open>AList.update\<close>, and
  \<^verbatim>\<open>for k, v := range m\<close> visits the entries in the order of the list.  Go leaves that
  order unspecified, so the properties below are shown for every list with distinct keys,
  that is for every order in which the runtime may visit the map.
\<close>

type_synonym ('k, 'v) gomap = "('k \<times> 'v) list"

text \<open>\<^verbatim>\<open>m[k]\<close> for a map of slices: the zero value \<^verbatim>\<open>nil\<close> when the key is missing.\<close>

definition lookupSlice :: "(string, string list) gomap \<Rightarrow> string \<Rightarrow> string list" where
  "lookupSlice m k = (case map_of m k of None \<Rightarrow> [] | Some v \<Rightarrow> v)"

text \<open>\<^verbatim>\<open>m[k]\<close> for a \<^verbatim>\<open>map[string]bool\<close>: \<^verbatim>\<open>false\<close> when the key is missing.\<close>

definition lookupBool :: "(string, bool) gomap \<Rightarrow> string \<Rightarrow> bool" where
  "lookupBool m k = (case map_of m k of None \<Rightarrow> False | Some b \<Rightarrow> b)"

subsection \<open>Package \<^verbatim>\<open>strings\<close>\<close>

text \<open>\<^verbatim>\<open>strings.Contains(s, substr)\<close>: \<^verbatim>\<open>substr\<close> occurs in \<^verbatim>\<open>s\<close> as a contiguous run of bytes.\<close>

fun Contains :: "string \<Rightarrow> string \<Rightarrow> bool" where
  "Contains [] substr = (substr = [])"
| "Contains (c # cs) substr = (prefix substr (c # cs) \<or> Contains cs substr)"

text \<open>\<^verbatim>\<open>strings.TrimPrefix\<close> and \<^verbatim>\<open>strings.TrimSuffix\<close>.\<close>

definition TrimPrefix :: "string \<Rightarrow> string \<Rightarrow> string" where
  "TrimPrefix s p = (if prefix p s then drop (length p) s else s)"

definition TrimSuffix :: "string \<Rightarrow> string \<Rightarrow> string" where
  "TrimSuffix s p = (if suffix p s then take (length s - length p) s else s)"

text \<open>
  \<^verbatim>\<open>strings.Split(s, sep)\<close> for a separator of one byte, which is every separator the
  program passes (newline, \<^verbatim>\<open>#\<close>, \<^verbatim>\<open>.\<close> and \<^verbatim>\<open>(\<close>).  The result always has at least one
  element (lemma \<open>Split_not_Nil\<close> below), so the index \<^verbatim>\<open>[0]\<close> that the program applies to
  it is in range and is written \<^const>\<open>hd\<close>.
\<close>

fun Split :: "string \<Rightarrow> char \<Rightarrow> string list" where
  "Split [] sep = [[]]"
| "Split (c # cs) sep =
     (if c = sep then [] # Split cs sep
      else (case Split cs sep of [] \<Rightarrow> [[c]] | p # ps \<Rightarrow> (c # p) # ps))"

section \<open>The symbol descriptor parser\<close>

text \<open>
  The pattern of \<^verbatim>\<open>extractSymbolsFromOccurrence\<close> is
  \<^verbatim>\<open>`[^`]+`(/[^\s`]+?\.)\<close>: a backtick, a non-empty run without backticks, a backtick, and
  the group: a slash, then as few bytes as possible (at least one) that are neither white
  space nor a backtick, then a dot.  Every delimiter of the pattern is ASCII and the negated
  classes accept every other rune, so matching byte by byte finds the same matches as
  matching rune by rune.
\<close>

text \<open>The class \<^verbatim>\<open>\s\<close> of Go's \<^verbatim>\<open>regexp\<close>: tab, newline, form feed, carriage return, space.\<close>

definition reSpace :: "char \<Rightarrow> bool" where
  "reSpace c = (c \<in> {CHR 0x09, CHR 0x0A, CHR 0x0C, CHR 0x0D, CHR 0x20})"

text \<open>The class \<^verbatim>\<open>[^\s`]\<close>.\<close>

definition segmentChar :: "char \<Rightarrow> bool" where
  "segmentChar c = (\<not> reSpace c \<and> c \<noteq> CHR 0x60)"

text \<open>
  The rest of the lazy repetition and the closing dot: the shortest run of class bytes that
  is followed by a dot; the result is what was consumed and what is left.
\<close>

fun lazySegment :: "string \<Rightarrow> (string \<times> string) option" where
  "lazySegment [] = None"
| "lazySegment (c # cs) =
     (if c = CHR ''.'' then Some ([c], cs)
      else if segmentChar c then
        (case lazySegment cs of None \<Rightarrow> None | Some (m, r) \<Rightarrow> Some (c # m, r))
      else None)"

text \<open>The group \<^verbatim>\<open>(/[^\s`]+?\.)\<close> at the head of a string.\<close>

fun matchGroup :: "string \<Rightarrow> (string \<times> string) option" where
  "matchGroup (c0 # c1 # cs) =
     (if c0 = CHR ''/'' \<and> segmentChar c1 then
        (case lazySegment cs of None \<Rightarrow> None | Some (m, r) \<Rightarrow> Some (c0 # c1 # m, r))
      else None)"
| "matchGroup _ = None"

text \<open>
  A match of the whole pattern that starts at the head of the string: the submatch slice
  \<^verbatim>\<open>[whole, group]\<close> and the text after the match.  The run between the backticks cannot
  contain a backtick and must be followed by one, so it is the whole run up to the next
  backtick.
\<close>

fun matchHere :: "string \<Rightarrow> (string list \<times> string) option" where
  "matchHere [] = None"
| "matchHere (c # cs) =
     (if c = CHR 0x60 then
        (let run = takeWhile (\<lambda>x. x \<noteq> CHR 0x60) cs;
             after = dropWhile (\<lambda>x. x \<noteq> CHR 0x60) cs
         in if run = [] then None
            else (case after of
                    [] \<Rightarrow> None
                  | q # g \<Rightarrow>
                      (case matchGroup g of
                         None \<Rightarrow> None
                       | Some (grp, rest) \<Rightarrow> Some ([c # run @ q # grp, grp], rest))))
      else None)"

lemma lazySegment_length: "lazySegment s = Some (m, r) \<Longrightarrow> length r < length s"
  by (induction s arbitrary: m r) (auto split: if_splits option.splits)

lemma matchGroup_length: "matchGroup s = Some (m, r) \<Longrightarrow> length r < length s"
  by (cases s rule: matchGroup.cases)
     (auto split: if_splits option.splits dest!: lazySegment_length)

lemma matchHere_length: "matchHere s = Some (m, r) \<Longrightarrow> length r < length s"
proof (cases s)
  case Nil
  then show "matchHere s = Some (m, r) \<Longrightarrow> ?thesis" by simp
next
  case (Cons c cs)
  assume "matchHere s = Some (m, r)"
  with Cons obtain q g grp where
    a: "dropWhile (\<lambda>x. x \<noteq> CHR 0x60) cs = q # g" and g: "matchGroup g = Some (grp, r)"
    by (auto simp: Let_def split: if_splits list.splits option.splits)
  have "length (dropWhile (\<lambda>x. x \<noteq> CHR 0x60) cs) \<le> length cs"
    by (rule length_dropWhile_le)
  with a matchGroup_length[OF g] Cons show ?thesis by simp
qed

text \<open>
  \<^verbatim>\<open>re.FindAllStringSubmatch(symbol, -1)\<close>: the leftmost match, then the leftmost match in
  what follows it, and so on.
\<close>

function FindAllStringSubmatch :: "string \<Rightarrow> string list list" where
  "FindAllStringSubmatch [] = []"
| "FindAllStringSubmatch (c # cs) =
     (case matchHere (c # cs) of
        Some (m, rest) \<Rightarrow> m # FindAllStringSubmatch rest
      | None \<Rightarrow> FindAllStringSubmatch cs)"
  by pat_completeness auto
termination
  by (relation "measure length") (auto simp del: matchHere.simps dest: matchHere_length)

definition determineSymbolType :: "string \<Rightarrow> string" where
  "determineSymbolType symbol =
     (if Contains symbol ''()'' then ''function''
      else if Contains symbol ''#'' then ''type''
      else ''constant or variable'')"

text \<open>The loop over the matches of \<^verbatim>\<open>extractSymbolsFromOccurrence\<close>.\<close>

fun matchesLoop :: "string list list \<Rightarrow> string \<times> string" where
  "matchesLoop [] = ('''', '''')"
| "matchesLoop (match # rest) =
     (if length match > 1 then
        (let symbolType = determineSymbolType (match ! 1);
             val = (if symbolType = ''function''
                    then TrimSuffix (TrimPrefix (match ! 1) ''/'') ''().''
                    else if symbolType = ''type''
                    then TrimSuffix (TrimPrefix (match ! 1) ''/'') ''.''
                    else TrimSuffix (TrimPrefix (match ! 1) ''/'') ''.'')
         in (val, symbolType))
      else matchesLoop rest)"

definition extractSymbolsFromOccurrence :: "string \<Rightarrow> string \<times> string" where
  "extractSymbolsFromOccurrence symbol = matchesLoop (FindAllStringSubmatch symbol)"

section \<open>The definition extractor\<close>

definition extractSymbolDefinition :: "string \<Rightarrow> string" where
  "extractSymbolDefinition symbol =
     (let parts = Split symbol CHR 0x0A
      in if length parts < 2 then '''' else parts ! 1)"

section \<open>The decoded index\<close>

text \<open>
  The fields of the SCIP messages that the program reads.  \<^verbatim>\<open>os.ReadFile\<close> and
  \<^verbatim>\<open>proto.Unmarshal\<close> are parameters of the functions that call them: the file system
  maps a path to the bytes of the file, the decoder maps the bytes to an index, and
  \<^const>\<open>None\<close> is the error return of either.
\<close>

record Occurrence =
  occSymbol :: string

record SymbolInformation =
  Symbol :: string
  Documentation :: "string list"

record Document =
  Occurrences :: "Occurrence list"
  Symbols :: "SymbolInformation list"

record scip_Index =
  Documents :: "Document list"

datatype error = ReadFileFailed | UnmarshalFailed | IndexOutOfRange | SliceBoundsOutOfRange

section \<open>The usage correlator\<close>

text \<open>The body of the loop over the occurrences of the consumer index.\<close>

definition recordOccurrence ::
  "string \<Rightarrow> (string, string list) gomap \<Rightarrow> Occurrence \<Rightarrow> (string, string list) gomap" where
  "recordOccurrence moduleName usedSymbols occ =
     (if Contains (occSymbol occ) moduleName then
        (case extractSymbolsFromOccurrence (occSymbol occ) of (val, typ) \<Rightarrow>
           if val \<noteq> '''' then
             (if typ = ''type'' then
                (let val1 = hd (Split val CHR ''#'');
                     field = (if length (Split val1 CHR ''.'') > 1
                              then Split val1 CHR ''.'' ! 1 else val)
                 in AList.update val1 (lookupSlice usedSymbols val1 @ [field]) usedSymbols)
              else AList.update val (lookupSlice usedSymbols val @ ['''']) usedSymbols)
           else usedSymbols)
      else usedSymbols)"

text \<open>
  The body of the loop over the declared symbols of a dependency index; the same text
  stands in \<^verbatim>\<open>findUsedSymbols\<close> and in \<^verbatim>\<open>getAvailableSymbols\<close>.
\<close>

definition recordSymbol ::
  "(string, string list) gomap \<Rightarrow> SymbolInformation \<Rightarrow> (string, string list) gomap" where
  "recordSymbol symbols symInfo =
     (case extractSymbolsFromOccurrence (Symbol symInfo) of (val, typ) \<Rightarrow>
        if val \<noteq> '''' then
          (case Documentation symInfo of
             [] \<Rightarrow> symbols
           | doc0 # _ \<Rightarrow>
               (let def = extractSymbolDefinition doc0
                in if def \<noteq> '''' then
                     (if typ = ''type'' then
                        (let d = hd (Split val CHR ''#'')
                         in if length (Split val CHR ''#'') > 1
                            then AList.update d (lookupSlice symbols d @ [def]) symbols
                            else symbols)
                      else AList.update val (lookupSlice symbols val @ [def]) symbols)
                   else symbols))
        else symbols)"

definition usedSymbolsLoop :: "string \<Rightarrow> Document list \<Rightarrow> (string, string list) gomap" where
  "usedSymbolsLoop moduleName docs =
     fold (\<lambda>doc m. fold (\<lambda>occ m. recordOccurrence moduleName m occ) (Occurrences doc) m) docs []"

definition symbolsLoop :: "Document list \<Rightarrow> (string, string list) gomap" where
  "symbolsLoop docs =
     fold (\<lambda>doc m. fold (\<lambda>symInfo m. recordSymbol m symInfo) (Symbols doc) m) docs []"

text \<open>The last loop of \<^verbatim>\<open>findUsedSymbols\<close>: the substring join of the two tables.\<close>

definition resultLoop ::
  "(string, string list) gomap \<Rightarrow> (string, string list) gomap \<Rightarrow> (string, string list) gomap" where
  "resultLoop usedSymbols oldModuleUsedSymbols =
     fold (\<lambda>(k, _) resultMap.
             fold (\<lambda>(j, v) resultMap. if Contains j k then AList.update j v resultMap else resultMap)
               oldModuleUsedSymbols resultMap)
       usedSymbols []"

definition findUsedSymbols ::
  "(string \<Rightarrow> string option) \<Rightarrow> (string \<Rightarrow> scip_Index option) \<Rightarrow>
   string \<Rightarrow> string \<Rightarrow> string \<Rightarrow> error + (string, string list) gomap" where
  "findUsedSymbols readFile unmarshal indexPath oldModuleIndexPath moduleName =
     (case readFile indexPath of
        None \<Rightarrow> Inl ReadFileFailed
      | Some indexData \<Rightarrow>
     (case unmarshal indexData of
        None \<Rightarrow> Inl UnmarshalFailed
      | Some index \<Rightarrow>
     (let usedSymbols = usedSymbolsLoop moduleName (Documents index)
      in
     (case readFile oldModuleIndexPath of
        None \<Rightarrow> Inl ReadFileFailed
      | Some oldModuleIndexData \<Rightarrow>
     (case unmarshal oldModuleIndexData of
        None \<Rightarrow> Inl UnmarshalFailed
      | Some oldModuleIndex \<Rightarrow>
     (let oldModuleUsedSymbols = symbolsLoop (Documents oldModuleIndex)
      in Inr (resultLoop usedSymbols oldModuleUsedSymbols)))))))"

definition getAvailableSymbols ::
  "(string \<Rightarrow> string option) \<Rightarrow> (string \<Rightarrow> scip_Index option) \<Rightarrow>
   string \<Rightarrow> error + (string, string list) gomap" where
  "getAvailableSymbols readFile unmarshal indexPath =
     (case readFile indexPath of
        None \<Rightarrow> Inl ReadFileFailed
      | Some indexData \<Rightarrow>
     (case unmarshal indexData of
        None \<Rightarrow> Inl UnmarshalFailed
      | Some index \<Rightarrow> Inr (symbolsLoop (Documents index))))"

section \<open>The definition differ\<close>

text \<open>
  \<^verbatim>\<open>difference(a, b)\<close>: two membership maps are filled first, then \<^verbatim>\<open>a\<close> and \<^verbatim>\<open>b\<close> are
  walked in order and the items missing from the other side are appended.
\<close>

definition difference :: "string list \<Rightarrow> string list \<Rightarrow> string list \<times> string list" where
  "difference a b =
     (let aMap = fold (\<lambda>item m. AList.update item True m) a [];
          bMap = fold (\<lambda>item m. AList.update item True m) b [];
          onlyInA = fold (\<lambda>item acc. if \<not> lookupBool bMap item then acc @ [item] else acc) a [];
          onlyInB = fold (\<lambda>item acc. if \<not> lookupBool aMap item then acc @ [item] else acc) b []
      in (onlyInA, onlyInB))"

text \<open>
  The inner loop of \<^verbatim>\<open>findChangedSymbols\<close>: \<^verbatim>\<open>found\<close> becomes true at the first key of the
  new table that contains \<^verbatim>\<open>oldSymbol\<close>, and the loop breaks there.
\<close>

fun foundLoop :: "string list \<Rightarrow> string \<Rightarrow> bool" where
  "foundLoop [] oldSymbol = False"
| "foundLoop (newFn # rest) oldSymbol =
     (if Contains newFn oldSymbol then True else foundLoop rest oldSymbol)"

text \<open>The tail of the loop body, under the comment "Also mark completely removed functions".\<close>

definition markRemoved ::
  "(string, string list) gomap \<Rightarrow> string \<Rightarrow>
   (string, string) gomap \<times> (string, string) gomap \<Rightarrow>
   (string, string) gomap \<times> (string, string) gomap" where
  "markRemoved newSymbols oldSymbol st =
     (case st of (added, removed) \<Rightarrow>
        if \<not> foundLoop (map fst newSymbols) oldSymbol
        then (added, AList.update oldSymbol ''removed'' removed)
        else (added, removed))"

text \<open>
  One iteration of the outer loop of \<^verbatim>\<open>findChangedSymbols\<close>.  \<^verbatim>\<open>cmp.Equal\<close> on two string
  slices built by \<^verbatim>\<open>append\<close> is equality of the lists; \<^verbatim>\<open>continue\<close> leaves the state as it
  is and skips the tail of the body.
\<close>

definition changedStep ::
  "(string, string list) gomap \<Rightarrow>
   (string, string) gomap \<times> (string, string) gomap \<Rightarrow> string \<times> string list \<Rightarrow>
   (string, string) gomap \<times> (string, string) gomap" where
  "changedStep newSymbols st entry =
     (case (st, entry) of ((added, removed), (oldSymbol, oldSymbolDefs)) \<Rightarrow>
        (case map_of newSymbols oldSymbol of
           Some newDefs \<Rightarrow>
             if oldSymbolDefs = newDefs then (added, removed)
             else
               (case difference oldSymbolDefs newDefs of (a, b) \<Rightarrow>
                  let removed1 = (case a of [] \<Rightarrow> removed
                                  | a0 # _ \<Rightarrow> AList.update oldSymbol a0 removed);
                      added1 = (case b of [] \<Rightarrow> added
                                | b0 # _ \<Rightarrow> AList.update oldSymbol b0 added)
                  in markRemoved newSymbols oldSymbol (added1, removed1))
         | None \<Rightarrow> markRemoved newSymbols oldSymbol (added, removed)))"

text \<open>\<^verbatim>\<open>findChangedSymbols\<close> returns \<^verbatim>\<open>(added, removed)\<close>.\<close>

definition findChangedSymbols ::
  "(string, string list) gomap \<Rightarrow> (string, string list) gomap \<Rightarrow>
   (string, string) gomap \<times> (string, string) gomap" where
  "findChangedSymbols oldSymbols newSymbols =
     fold (\<lambda>entry st. changedStep newSymbols st entry) oldSymbols ([], [])"

section \<open>The function-only pipeline of \<^verbatim>\<open>main.go\<close>\<close>

subsection \<open>Library functions\<close>

text \<open>\<^verbatim>\<open>strings.Index(s, substr)\<close>: the offset of the first occurrence, or \<open>-1\<close>.\<close>

fun Index :: "string \<Rightarrow> string \<Rightarrow> int" where
  "Index [] substr = (if substr = [] then 0 else - 1)"
| "Index (c # cs) substr =
     (if prefix substr (c # cs) then 0
      else (let i = Index cs substr in if i < 0 then - 1 else i + 1))"

text \<open>The slice expression \<^verbatim>\<open>s[n:]\<close>, which panics when \<^verbatim>\<open>n\<close> is out of range.\<close>

definition sliceFrom :: "string \<Rightarrow> int \<Rightarrow> error + string" where
  "sliceFrom s n =
     (if n < 0 \<or> int (length s) < n then Inl SliceBoundsOutOfRange else Inr (drop (nat n) s))"

text \<open>
  The UTF-8 encodings of the runes for which \<^verbatim>\<open>unicode.IsSpace\<close> holds: the six ASCII
  white-space bytes, U+0085, U+00A0, U+1680, U+2000 to U+200A, U+2028, U+2029, U+202F,
  U+205F and U+3000.
\<close>

definition spaceRunes :: "string list" where
  "spaceRunes =
     [[CHR 0x09], [CHR 0x0A], [CHR 0x0B], [CHR 0x0C], [CHR 0x0D], [CHR 0x20],
      [CHR 0xC2, CHR 0x85], [CHR 0xC2, CHR 0xA0],
      [CHR 0xE1, CHR 0x9A, CHR 0x80],
      [CHR 0xE2, CHR 0x80, CHR 0x80], [CHR 0xE2, CHR 0x80, CHR 0x81],
      [CHR 0xE2, CHR 0x80, CHR 0x82], [CHR 0xE2, CHR 0x80, CHR 0x83],
      [CHR 0xE2, CHR 0x80, CHR 0x84], [CHR 0xE2, CHR 0x80, CHR 0x85],
      [CHR 0xE2, CHR 0x80, CHR 0x86], [CHR 0xE2, CHR 0x80, CHR 0x87],
      [CHR 0xE2, CHR 0x80, CHR 0x88], [CHR 0xE2, CHR 0x80, CHR 0x89],
      [CHR 0xE2, CHR 0x80, CHR 0x8A],
      [CHR 0xE2, CHR 0x80, CHR 0xA8], [CHR 0xE2, CHR 0x80, CHR 0xA9],
      [CHR 0xE2, CHR 0x80, CHR 0xAF], [CHR 0xE2, CHR 0x81, CHR 0x9F],
      [CHR 0xE3, CHR 0x80, CHR 0x80]]"

text \<open>Removes, as long as there is one, a leading byte sequence that is one of \<^verbatim>\<open>ws\<close>.\<close>

function trimLeading :: "string list \<Rightarrow> string \<Rightarrow> string" where
  "trimLeading ws s =
     (case find (\<lambda>w. w \<noteq> [] \<and> prefix w s) ws of
        None \<Rightarrow> s
      | Some w \<Rightarrow> trimLeading ws (drop (length w) s))"
  by pat_completeness auto
termination
proof (relation "measure (\<lambda>(ws, s). length s)")
  fix ws :: "string list" and s w :: string
  assume "find (\<lambda>w. w \<noteq> [] \<and> prefix w s) ws = Some w"
  then have "w \<noteq> []" "prefix w s" by (auto simp: find_Some_iff)
  then have "s \<noteq> []" by auto
  with \<open>w \<noteq> []\<close> show "((ws, drop (length w) s), (ws, s)) \<in> measure (\<lambda>(ws, s). length s)"
    by simp
qed simp

text \<open>
  \<^verbatim>\<open>strings.TrimSpace\<close>: the leading and the trailing white-space runes are removed; a
  rune is recognised by its UTF-8 encoding, from the front and from the back.
\<close>

definition TrimSpace :: "string \<Rightarrow> string" where
  "TrimSpace s = rev (trimLeading (map rev spaceRunes) (rev (trimLeading spaceRunes s)))"

text \<open>
  \<^verbatim>\<open>unicode.IsUpper(rune(b))\<close> for a byte \<^verbatim>\<open>b\<close>: the conversion reads the byte as a
  Latin-1 code point, whose upper-case letters are A to Z, U+00C0 to U+00D6 and U+00D8 to
  U+00DE.
\<close>

definition IsUpper :: "char \<Rightarrow> bool" where
  "IsUpper b =
     (let n = (of_char b :: nat)
      in (65 \<le> n \<and> n \<le> 90) \<or> (192 \<le> n \<and> n \<le> 214) \<or> (216 \<le> n \<and> n \<le> 222))"

text \<open>A loop whose body may panic: the first error ends it.\<close>

fun forEach :: "('s \<Rightarrow> 'a \<Rightarrow> error + 's) \<Rightarrow> 'a list \<Rightarrow> 's \<Rightarrow> error + 's" where
  "forEach body [] st = Inr st"
| "forEach body (x # xs) st =
     (case body st x of Inl e \<Rightarrow> Inl e | Inr st' \<Rightarrow> forEach body xs st')"

subsection \<open>The functions of \<^verbatim>\<open>main.go\<close>\<close>

definition extractExportedFunctionSignature :: "string \<Rightarrow> error + string" where
  "extractExportedFunctionSignature s =
     (let parts = Split s CHR 0x0A
      in if length parts < 2 then Inr ''''
         else
           (let funcDef = parts ! 1
            in if \<not> Contains funcDef ''func'' then Inr ''''
               else
                 (case sliceFrom funcDef (Index funcDef ''func '' + 5) of
                    Inl e \<Rightarrow> Inl e
                  | Inr afterFunc \<Rightarrow>
                      (case TrimSpace (hd (Split afterFunc CHR ''('')) of
                         [] \<Rightarrow> Inr ''''
                       | b # _ \<Rightarrow> if \<not> IsUpper b then Inr '''' else Inr funcDef))))"

text \<open>
  The body of the loop of \<^verbatim>\<open>getAvailableFunctions\<close>: \<^verbatim>\<open>sym.Documentation[0]\<close> is read with
  no check of the length.
\<close>

definition availableStep ::
  "(string, unit) gomap \<Rightarrow> SymbolInformation \<Rightarrow> error + (string, unit) gomap" where
  "availableStep functions symInfo =
     (case Documentation symInfo of
        [] \<Rightarrow> Inl IndexOutOfRange
      | doc0 # _ \<Rightarrow>
          (case extractExportedFunctionSignature doc0 of
             Inl e \<Rightarrow> Inl e
           | Inr funcSignature \<Rightarrow>
               if funcSignature = '''' then Inr functions
               else Inr (AList.update funcSignature () functions)))"

definition getAvailableFunctions ::
  "(string \<Rightarrow> string option) \<Rightarrow> (string \<Rightarrow> scip_Index option) \<Rightarrow>
   string \<Rightarrow> error + (string, unit) gomap" where
  "getAvailableFunctions readFile unmarshal indexPath =
     (case readFile indexPath of
        None \<Rightarrow> Inl ReadFileFailed
      | Some indexData \<Rightarrow>
     (case unmarshal indexData of
        None \<Rightarrow> Inl UnmarshalFailed
      | Some index \<Rightarrow>
          forEach (\<lambda>functions doc. forEach availableStep (Symbols doc) functions)
            (Documents index) []))"

text \<open>The class \<^verbatim>\<open>\w\<close>: ASCII letters, digits and the underscore.\<close>

definition wordChar :: "char \<Rightarrow> bool" where
  "wordChar c =
     (let n = (of_char c :: nat)
      in (48 \<le> n \<and> n \<le> 57) \<or> (65 \<le> n \<and> n \<le> 90) \<or> n = 95 \<or> (97 \<le> n \<and> n \<le> 122))"

text \<open>
  \<^verbatim>\<open>re.FindString\<close> for the pattern \<^verbatim>\<open>\w+\(\)\.\<close>: the leftmost position at which a run of
  word bytes, taken as long as it goes, is followed by \<^verbatim>\<open>().\<close>; the empty string when
  there is none.
\<close>

fun FindString :: "string \<Rightarrow> string" where
  "FindString [] = ''''"
| "FindString (c # cs) =
     (if wordChar c \<and> prefix ''().'' (dropWhile wordChar (c # cs))
      then takeWhile wordChar (c # cs) @ ''().''
      else FindString cs)"

definition recordFunctionUse ::
  "string \<Rightarrow> (string, unit) gomap \<Rightarrow> Occurrence \<Rightarrow> (string, unit) gomap" where
  "recordFunctionUse moduleName usedFunctions occ =
     (if Contains (occSymbol occ) moduleName then
        (let match = FindString (occSymbol occ)
         in if match \<noteq> '''' then
              (let funcName = TrimSuffix match ''().''
               in AList.update funcName () usedFunctions)
            else usedFunctions)
      else usedFunctions)"

text \<open>
  The body of the second loop of \<^verbatim>\<open>findUsedFunctions\<close>: the first documentation string
  is read only when there is one.
\<close>

definition recordSignature ::
  "(string, unit) gomap \<Rightarrow> SymbolInformation \<Rightarrow> error + (string, unit) gomap" where
  "recordSignature oldModuleUsedFunctions symInfo =
     (case Documentation symInfo of
        [] \<Rightarrow> Inr oldModuleUsedFunctions
      | doc0 # _ \<Rightarrow>
          (case extractExportedFunctionSignature doc0 of
             Inl e \<Rightarrow> Inl e
           | Inr funcSignature \<Rightarrow> Inr (AList.update funcSignature () oldModuleUsedFunctions)))"

definition findUsedFunctions ::
  "(string \<Rightarrow> string option) \<Rightarrow> (string \<Rightarrow> scip_Index option) \<Rightarrow>
   string \<Rightarrow> string \<Rightarrow> string \<Rightarrow> error + (string, unit) gomap" where
  "findUsedFunctions readFile unmarshal indexPath oldModuleIndexPath moduleName =
     (case readFile indexPath of
        None \<Rightarrow> Inl ReadFileFailed
      | Some indexData \<Rightarrow>
     (case unmarshal indexData of
        None \<Rightarrow> Inl UnmarshalFailed
      | Some index \<Rightarrow>
     (let usedFunctions =
            fold (\<lambda>doc m. fold (\<lambda>occ m. recordFunctionUse moduleName m occ) (Occurrences doc) m)
              (Documents index) []
      in
     (case readFile oldModuleIndexPath of
        None \<Rightarrow> Inl ReadFileFailed
      | Some oldModuleIndexData \<Rightarrow>
     (case unmarshal oldModuleIndexData of
        None \<Rightarrow> Inl UnmarshalFailed
      | Some oldModuleIndex \<Rightarrow>
     (case forEach (\<lambda>m doc. forEach recordSignature (Symbols doc) m)
             (Documents oldModuleIndex) [] of
        Inl e \<Rightarrow> Inl e
      | Inr oldModuleUsedFunctions \<Rightarrow>
          Inr (fold (\<lambda>(k, _) resultMap.
                       fold (\<lambda>(j, _) resultMap.
                               if Contains j k then AList.update j () resultMap else resultMap)
                         oldModuleUsedFunctions resultMap)
                 usedFunctions [])))))))"





section \<open>Definitions used in the statements and proofs\<close>

text \<open>
  What one run of the loop leaves at a key, written without the loop: the entry of
  \<^verbatim>\<open>added\<close> and of \<^verbatim>\<open>removed\<close> for an old symbol with definitions \<^verbatim>\<open>oldDefs\<close>.
  Used to reason about \<^const>\<open>findChangedSymbols\<close>.
\<close>

definition addedEntry :: "(string, string list) gomap \<Rightarrow> string \<Rightarrow> string list \<Rightarrow> string option" where
  "addedEntry newSymbols k oldDefs =
     (case map_of newSymbols k of
        None \<Rightarrow> None
      | Some newDefs \<Rightarrow>
          (case filter (\<lambda>y. y \<notin> set oldDefs) newDefs of [] \<Rightarrow> None | y # _ \<Rightarrow> Some y))"

definition removedEntry :: "(string, string list) gomap \<Rightarrow> string \<Rightarrow> string list \<Rightarrow> string option" where
  "removedEntry newSymbols k oldDefs =
     (case map_of newSymbols k of
        None \<Rightarrow> if \<exists>j \<in> set (map fst newSymbols). Contains j k then None else Some ''removed''
      | Some newDefs \<Rightarrow>
          (case filter (\<lambda>x. x \<notin> set newDefs) oldDefs of [] \<Rightarrow> None | x # _ \<Rightarrow> Some x))"

text \<open>
  The key under which \<^const>\<open>recordOccurrence\<close> files an occurrence: the candidate identity
  parsed from its descriptor.
\<close>

definition candidateIdentity :: "string \<Rightarrow> string" where
  "candidateIdentity symbol =
     (case extractSymbolsFromOccurrence symbol of (val, typ) \<Rightarrow>
        if typ = ''type'' then hd (Split val CHR ''#'') else val)"

text \<open>
  The pattern of the parser, read as a statement about the text: \<^verbatim>\<open>s\<close> is \<^verbatim>\<open>pre\<close>, a
  backtick, the non-empty backtick-free \<^verbatim>\<open>pkg\<close>, a backtick, a slash, the component \<^verbatim>\<open>body\<close>
  and a dot, then \<^verbatim>\<open>rest\<close>; the component is non-empty, has no white space and no backtick,
  and no dot after its first byte.  A match of the pattern that starts after \<^verbatim>\<open>pre\<close> is such
  a decomposition, and the group it captures is \<^verbatim>\<open>/body.\<close>
\<close>

definition matchesAt :: "string \<Rightarrow> string \<Rightarrow> string \<Rightarrow> string \<Rightarrow> string \<Rightarrow> bool" where
  "matchesAt s pre pkg body rest \<longleftrightarrow>
     s = pre @ CHR 0x60 # pkg @ CHR 0x60 # CHR ''/'' # body @ CHR ''.'' # rest
     \<and> pkg \<noteq> [] \<and> CHR 0x60 \<notin> set pkg
     \<and> body \<noteq> [] \<and> list_all segmentChar body \<and> CHR ''.'' \<notin> set (tl body)"

text \<open>
  The classification as the specification words it, by the suffix of the captured
  component: the component ends in a dot, so the suffix \<^verbatim>\<open>()\<close> is read as the ending \<^verbatim>\<open>().\<close>
  and the suffix \<^verbatim>\<open>#\<close> as the ending \<^verbatim>\<open>#.\<close>.  It is compared with
  \<^const>\<open>determineSymbolType\<close>, which is the classification of the source.
\<close>

definition suffixKind :: "string \<Rightarrow> string" where
  "suffixKind captured =
     (if suffix ''().'' captured then ''function''
      else if suffix ''#.'' captured then ''type''
      else ''constant or variable'')"

text \<open>
  A small run: the consumer refers to \<^verbatim>\<open>F\<close> of the package \<^verbatim>\<open>p\<close> of module \<^verbatim>\<open>m\<close>; the old index
  declares \<^verbatim>\<open>func F(a)\<close> and \<^verbatim>\<open>func MustF(a)\<close>, the new index only \<^verbatim>\<open>func F(a, b)\<close>.  The
  decoder maps the file contents \<^verbatim>\<open>c\<close>, \<^verbatim>\<open>o\<close> and \<^verbatim>\<open>n\<close> to the three indexes.
\<close>

definition exampleConsumer :: scip_Index where
  "exampleConsumer =
     \<lparr>Documents = [\<lparr>Occurrences = [\<lparr>occSymbol = ''m `p`/F().''\<rparr>], Symbols = []\<rparr>]\<rparr>"

definition exampleOld :: scip_Index where
  "exampleOld =
     \<lparr>Documents = [\<lparr>Occurrences = [],
        Symbols = [\<lparr>Symbol = ''m `p`/F().'', Documentation = [''F\<newline>func F(a)'']\<rparr>,
                   \<lparr>Symbol = ''m `p`/MustF().'',
                    Documentation = [''MustF\<newline>func MustF(a)'']\<rparr>]\<rparr>]\<rparr>"

definition exampleNew :: scip_Index where
  "exampleNew =
     \<lparr>Documents = [\<lparr>Occurrences = [],
        Symbols = [\<lparr>Symbol = ''m `p`/F().'', Documentation = [''F\<newline>func F(a, b)'']\<rparr>]\<rparr>]\<rparr>"

definition exampleUnmarshal :: "string \<Rightarrow> scip_Index option" where
  "exampleUnmarshal indexData =
     (if indexData = ''c'' then Some exampleConsumer
      else if indexData = ''o'' then Some exampleOld
      else if indexData = ''n'' then Some exampleNew
      else None)"

section \<open>Properties of the string functions\<close>

lemma Contains_sublist: "Contains s sub \<longleftrightarrow> sublist sub s"
  by (induction s) (auto simp: sublist_Cons_right)

lemma Contains_refl: "Contains s s"
  by (simp add: Contains_sublist)

lemma member_map_fold:
  "map_of (fold (\<lambda>item m. AList.update item True m) xs m0) k =
     (if k \<in> set xs then Some True else map_of m0 k)"
  by (induction xs arbitrary: m0) (auto simp: update_conv')

lemma lookupBool_fold:
  "lookupBool (fold (\<lambda>item m. AList.update item True m) xs []) k \<longleftrightarrow> k \<in> set xs"
  by (simp add: lookupBool_def member_map_fold)

lemma only_fold:
  "fold (\<lambda>item acc. if \<not> P item then acc @ [item] else acc) xs acc0 =
     acc0 @ filter (\<lambda>x. \<not> P x) xs"
  by (induction xs arbitrary: acc0) auto

lemma difference_filter:
  "difference a b = (filter (\<lambda>x. x \<notin> set b) a, filter (\<lambda>x. x \<notin> set a) b)"
  by (simp add: difference_def Let_def only_fold lookupBool_fold)

lemma foundLoop_iff: "foundLoop ks k \<longleftrightarrow> (\<exists>j \<in> set ks. Contains j k)"
  by (induction ks) auto

lemma foundLoop_key: "map_of new k = Some nd \<Longrightarrow> foundLoop (map fst new) k"
  by (auto simp: foundLoop_iff Contains_refl dest!: map_of_SomeD intro!: bexI[of _ "(k, nd)"])

section \<open>Properties of the differ\<close>

lemma changedStep_other:
  assumes "k \<noteq> fst entry"
  shows "map_of (fst (changedStep new st entry)) k = map_of (fst st) k"
    and "map_of (snd (changedStep new st entry)) k = map_of (snd st) k"
  using assms
  by (auto simp: changedStep_def markRemoved_def Let_def update_conv'
           split: prod.splits option.splits list.splits)

lemma fold_changedStep_other:
  assumes "k \<notin> fst ` set old"
  shows "map_of (fst (fold (\<lambda>entry st. changedStep new st entry) old st)) k = map_of (fst st) k"
    and "map_of (snd (fold (\<lambda>entry st. changedStep new st entry) old st)) k = map_of (snd st) k"
  using assms
  by (induction old arbitrary: st) (auto simp: changedStep_other)

lemma changedStep_added_at:
  "map_of (fst st) k = None \<Longrightarrow>
   map_of (fst (changedStep new st (k, od))) k = addedEntry new k od"
  by (auto simp: changedStep_def markRemoved_def Let_def update_conv' addedEntry_def
                 difference_filter
           split: prod.splits option.splits list.splits)

lemma markRemoved_present: "map_of new k = Some nd \<Longrightarrow> markRemoved new k st = st"
  by (simp add: markRemoved_def foundLoop_key split: prod.splits)

lemma changedStep_removed_at:
  "map_of (snd st) k = None \<Longrightarrow>
   map_of (snd (changedStep new st (k, od))) k = removedEntry new k od"
proof (cases "map_of new k")
  case None
  assume "map_of (snd st) k = None"
  with None show ?thesis
    by (auto simp: changedStep_def markRemoved_def update_conv' removedEntry_def foundLoop_iff
             split: prod.splits)
next
  case (Some nd)
  assume "map_of (snd st) k = None"
  with Some show ?thesis
    by (auto simp: changedStep_def markRemoved_present Let_def update_conv' removedEntry_def
                   difference_filter
             split: prod.splits list.splits)
qed

lemma fold_changedStep_at:
  assumes "distinct (map fst old)" "(k, od) \<in> set old"
    "map_of (fst st) k = None" "map_of (snd st) k = None"
  shows "map_of (fst (fold (\<lambda>entry st. changedStep new st entry) old st)) k = addedEntry new k od
       \<and> map_of (snd (fold (\<lambda>entry st. changedStep new st entry) old st)) k = removedEntry new k od"
  using assms
proof (induction old arbitrary: st)
  case Nil
  then show ?case by simp
next
  case (Cons e old)
  show ?case
  proof (cases "e = (k, od)")
    case True
    with Cons.prems have "k \<notin> fst ` set old" by auto
    with True Cons.prems show ?thesis
      by (simp add: fold_changedStep_other changedStep_added_at changedStep_removed_at)
  next
    case False
    with Cons.prems have mem: "(k, od) \<in> set old" and ne: "k \<noteq> fst e"
      by (auto simp: rev_image_eqI)
    from Cons.prems have d: "distinct (map fst old)" by simp
    have "map_of (fst (changedStep new st e)) k = None" "map_of (snd (changedStep new st e)) k = None"
      using ne Cons.prems by (simp_all add: changedStep_other)
    from Cons.IH[OF d mem this] show ?thesis by simp
  qed
qed

lemma findChangedSymbols_added:
  assumes "distinct (map fst old)"
  shows "map_of (fst (findChangedSymbols old new)) k =
           (case map_of old k of None \<Rightarrow> None | Some od \<Rightarrow> addedEntry new k od)"
proof (cases "map_of old k")
  case None
  then have "k \<notin> fst ` set old" by (simp add: map_of_eq_None_iff)
  with None show ?thesis by (simp add: findChangedSymbols_def fold_changedStep_other)
next
  case (Some od)
  then have "(k, od) \<in> set old" by (rule map_of_SomeD)
  with assms Some show ?thesis
    using fold_changedStep_at[of old k od "([], [])" new] by (simp add: findChangedSymbols_def)
qed

lemma findChangedSymbols_removed:
  assumes "distinct (map fst old)"
  shows "map_of (snd (findChangedSymbols old new)) k =
           (case map_of old k of None \<Rightarrow> None | Some od \<Rightarrow> removedEntry new k od)"
proof (cases "map_of old k")
  case None
  then have "k \<notin> fst ` set old" by (simp add: map_of_eq_None_iff)
  with None show ?thesis by (simp add: findChangedSymbols_def fold_changedStep_other)
next
  case (Some od)
  then have "(k, od) \<in> set old" by (rule map_of_SomeD)
  with assms Some show ?thesis
    using fold_changedStep_at[of old k od "([], [])" new] by (simp add: findChangedSymbols_def)
qed

lemma entries_both_iff:
  "(addedEntry new k od \<noteq> None \<and> removedEntry new k od \<noteq> None) \<longleftrightarrow>
   (\<exists>nd. map_of new k = Some nd \<and> \<not> set od \<subseteq> set nd \<and> \<not> set nd \<subseteq> set od)"
proof (cases "map_of new k")
  case None
  then show ?thesis by (simp add: addedEntry_def)
next
  case (Some nd)
  have hd: "\<And>xs :: string list. (case xs of [] \<Rightarrow> None | y # _ \<Rightarrow> Some y) \<noteq> None \<longleftrightarrow> xs \<noteq> []"
    by (simp split: list.splits)
  from Some have "addedEntry new k od \<noteq> None \<longleftrightarrow> filter (\<lambda>y. y \<notin> set od) nd \<noteq> []"
    by (simp only: addedEntry_def option.case hd)
  moreover from Some have "removedEntry new k od \<noteq> None \<longleftrightarrow> filter (\<lambda>x. x \<notin> set nd) od \<noteq> []"
    by (simp only: removedEntry_def option.case hd)
  moreover have "filter (\<lambda>y. y \<notin> set od) nd \<noteq> [] \<longleftrightarrow> \<not> set nd \<subseteq> set od"
    by (auto simp: filter_empty_conv)
  moreover have "filter (\<lambda>x. x \<notin> set nd) od \<noteq> [] \<longleftrightarrow> \<not> set od \<subseteq> set nd"
    by (auto simp: filter_empty_conv)
  ultimately show ?thesis using Some by auto
qed

text \<open>
  Claim C1, as stated: no identity is a key of both returned maps.  It fails when a symbol
  keeps its name and changes its signature: the old definition goes to \<^verbatim>\<open>removed\<close> and the
  new one to \<^verbatim>\<open>added\<close>, under the same key.
\<close>

theorem changed_removed_disjoint_counterexample:
  "''F'' \<in> dom (map_of (fst (findChangedSymbols [(''F'', [''func F(a)''])] [(''F'', [''func F(a, b)''])])))
         \<inter> dom (map_of (snd (findChangedSymbols [(''F'', [''func F(a)''])] [(''F'', [''func F(a, b)''])])))"
  by (simp add: findChangedSymbols_def changedStep_def markRemoved_def difference_def
      lookupBool_def)

text \<open>
  Claim C1, amended: an identity is a key of both returned maps exactly when it is a key of
  the usage record and of the new table and each of the two definition lists holds a
  definition that the other lacks.  Every other identity is a key of at most one map.
\<close>

theorem changed_removed_overlap_iff:
  assumes "distinct (map fst oldSymbols)"
  shows "k \<in> dom (map_of (fst (findChangedSymbols oldSymbols newSymbols)))
             \<inter> dom (map_of (snd (findChangedSymbols oldSymbols newSymbols)))
         \<longleftrightarrow> (\<exists>od nd. map_of oldSymbols k = Some od \<and> map_of newSymbols k = Some nd
                  \<and> \<not> set od \<subseteq> set nd \<and> \<not> set nd \<subseteq> set od)"
proof (cases "map_of oldSymbols k")
  case None
  with assms show ?thesis
    by (simp add: dom_def findChangedSymbols_added findChangedSymbols_removed)
next
  case (Some od)
  with assms entries_both_iff[of newSymbols k od] show ?thesis
    by (simp add: dom_def findChangedSymbols_added findChangedSymbols_removed)
qed

text \<open>Witness for C1 (amended): a symbol that is gone is a key of \<^verbatim>\<open>removed\<close> only.\<close>

theorem changed_removed_overlap_iff_witness:
  "distinct (map fst [(''G'', [''func G()''])]) \<and>
   ''G'' \<notin> dom (map_of (fst (findChangedSymbols [(''G'', [''func G()''])] [(''H'', [''func H()''])])))
         \<inter> dom (map_of (snd (findChangedSymbols [(''G'', [''func G()''])] [(''H'', [''func H()''])])))"
  using changed_removed_overlap_iff[of "[(''G'', [''func G()''])]" "''G''" "[(''H'', [''func H()''])]"]
  by simp

text \<open>
  Claim C2: an identity that is a key of the usage record and of the new table, with
  definition lists that are equal as sets, gets no entry, neither in \<^verbatim>\<open>added\<close> nor in
  \<^verbatim>\<open>removed\<close>.
\<close>

theorem unchanged_symbol_no_entry:
  assumes "distinct (map fst oldSymbols)"
    and "map_of oldSymbols k = Some od" and "map_of newSymbols k = Some nd"
    and "set od = set nd"
  shows "map_of (fst (findChangedSymbols oldSymbols newSymbols)) k = None
       \<and> map_of (snd (findChangedSymbols oldSymbols newSymbols)) k = None"
  using assms
  by (simp add: findChangedSymbols_added findChangedSymbols_removed addedEntry_def removedEntry_def)

text \<open>Witness for C2: the same definitions in another order and with a duplicate.\<close>

theorem unchanged_symbol_no_entry_witness:
  "distinct (map fst [(''H'', [''a'', ''b'', ''a''])]) \<and>
   map_of [(''H'', [''a'', ''b'', ''a''])] ''H'' = Some [''a'', ''b'', ''a''] \<and>
   map_of [(''H'', [''b'', ''a''])] ''H'' = Some [''b'', ''a''] \<and>
   set [''a'', ''b'', ''a''] = set [''b'', ''a''] \<and>
   map_of (fst (findChangedSymbols [(''H'', [''a'', ''b'', ''a''])] [(''H'', [''b'', ''a''])])) ''H'' = None \<and>
   map_of (snd (findChangedSymbols [(''H'', [''a'', ''b'', ''a''])] [(''H'', [''b'', ''a''])])) ''H'' = None"
  using unchanged_symbol_no_entry[of "[(''H'', [''a'', ''b'', ''a''])]" "''H''" "[''a'', ''b'', ''a'']"
      "[(''H'', [''b'', ''a''])]" "[''b'', ''a'']"]
  by auto

text \<open>
  Claim C7: for a key of both tables with unequal definition lists, \<^verbatim>\<open>difference\<close> yields
  the definitions only in the old list and those only in the new list, each in the order of
  its list; \<^verbatim>\<open>removed[k]\<close> is the first of the former and \<^verbatim>\<open>added[k]\<close> the first of the
  latter, whenever there is one, and both entries are written when both lists are non-empty.
\<close>

theorem changed_symbol_first_differences:
  assumes "distinct (map fst oldSymbols)"
    and "map_of oldSymbols k = Some od" and "map_of newSymbols k = Some nd"
    and "od \<noteq> nd"
    and "difference od nd = (onlyOld, onlyNew)"
  shows "onlyOld = filter (\<lambda>x. x \<notin> set nd) od \<and> onlyNew = filter (\<lambda>y. y \<notin> set od) nd \<and>
         map_of (snd (findChangedSymbols oldSymbols newSymbols)) k =
           (case onlyOld of [] \<Rightarrow> None | x # _ \<Rightarrow> Some x) \<and>
         map_of (fst (findChangedSymbols oldSymbols newSymbols)) k =
           (case onlyNew of [] \<Rightarrow> None | y # _ \<Rightarrow> Some y)"
  using assms
  by (simp add: findChangedSymbols_added findChangedSymbols_removed addedEntry_def removedEntry_def
      difference_filter)

text \<open>Witness for C7: both difference lists are non-empty and both entries are written.\<close>

theorem changed_symbol_first_differences_witness:
  "distinct (map fst [(''F'', [''f1'', ''f2'', ''f3''])]) \<and>
   map_of [(''F'', [''f1'', ''f2'', ''f3''])] ''F'' = Some [''f1'', ''f2'', ''f3''] \<and>
   map_of [(''F'', [''f4'', ''f2'', ''f5''])] ''F'' = Some [''f4'', ''f2'', ''f5''] \<and>
   [''f1'', ''f2'', ''f3''] \<noteq> [''f4'', ''f2'', ''f5''] \<and>
   difference [''f1'', ''f2'', ''f3''] [''f4'', ''f2'', ''f5''] = ([''f1'', ''f3''], [''f4'', ''f5'']) \<and>
   map_of (snd (findChangedSymbols [(''F'', [''f1'', ''f2'', ''f3''])] [(''F'', [''f4'', ''f2'', ''f5''])])) ''F'' = Some ''f1'' \<and>
   map_of (fst (findChangedSymbols [(''F'', [''f1'', ''f2'', ''f3''])] [(''F'', [''f4'', ''f2'', ''f5''])])) ''F'' = Some ''f4''"
proof -
  have d: "difference [''f1'', ''f2'', ''f3''] [''f4'', ''f2'', ''f5''] = ([''f1'', ''f3''], [''f4'', ''f5''])"
    by (simp add: difference_def lookupBool_def)
  show ?thesis
    using changed_symbol_first_differences[of "[(''F'', [''f1'', ''f2'', ''f3''])]" "''F''" "[''f1'', ''f2'', ''f3'']"
      "[(''F'', [''f4'', ''f2'', ''f5''])]" "[''f4'', ''f2'', ''f5'']" "[''f1'', ''f3'']" "[''f4'', ''f5'']"] d
    by simp
qed

section \<open>Properties of the descriptor parser\<close>

lemma Contains_single: "Contains s [c] \<longleftrightarrow> c \<in> set s"
  by (induction s) auto

lemma Split_not_Nil: "Split s sep \<noteq> []"
  by (induction s) (auto split: list.splits)

lemma lazySegment_run:
  "\<forall>c \<in> set bs. segmentChar c \<and> c \<noteq> CHR ''.'' \<Longrightarrow>
   lazySegment (bs @ CHR ''.'' # rest) = Some (bs @ ''.'', rest)"
  by (induction bs) auto

lemma matchGroup_run:
  assumes "body \<noteq> []" "\<forall>c \<in> set body. segmentChar c" "CHR ''.'' \<notin> set (tl body)"
  shows "matchGroup (CHR ''/'' # body @ CHR ''.'' # rest) = Some (CHR ''/'' # body @ ''.'', rest)"
proof -
  from assms(1) obtain b bs where body: "body = b # bs" by (cases body) auto
  with assms have "\<forall>c \<in> set bs. segmentChar c \<and> c \<noteq> CHR ''.''" by auto
  from lazySegment_run[OF this] body assms(2) show ?thesis by simp
qed

lemma matchHere_run:
  assumes "pkg \<noteq> []" "CHR 0x60 \<notin> set pkg"
    and "body \<noteq> []" "\<forall>c \<in> set body. segmentChar c" "CHR ''.'' \<notin> set (tl body)"
  shows "matchHere (CHR 0x60 # pkg @ CHR 0x60 # CHR ''/'' # body @ CHR ''.'' # rest) =
           Some ([CHR 0x60 # pkg @ CHR 0x60 # CHR ''/'' # body @ ''.'', CHR ''/'' # body @ ''.''], rest)"
proof -
  let ?tail = "CHR 0x60 # CHR ''/'' # body @ CHR ''.'' # rest"
  have t: "takeWhile (\<lambda>x. x \<noteq> CHR 0x60) (pkg @ ?tail) = pkg"
    using assms(2) by (subst takeWhile_append2) auto
  have d: "dropWhile (\<lambda>x. x \<noteq> CHR 0x60) (pkg @ ?tail) = ?tail"
    using assms(2) by (subst dropWhile_append2) auto
  show ?thesis
    using assms(1) matchGroup_run[OF assms(3-5), of rest]
    by (simp add: t d)
qed

lemma FindAllStringSubmatch_skip:
  "CHR 0x60 \<notin> set pre \<Longrightarrow> FindAllStringSubmatch (pre @ s) = FindAllStringSubmatch s"
  by (induction pre) auto

lemma Contains_parens_capture:
  "Contains (CHR ''/'' # body @ ''.'') ''()'' \<longleftrightarrow> Contains body ''()''"
proof -
  have "sublist ''()'' (body @ ''.'') \<longleftrightarrow> sublist ''()'' body"
  proof
    assume "sublist ''()'' (body @ ''.'')"
    then consider "sublist ''()'' body" | "sublist ''()'' ''.''"
      | xs1 xs2 where "''()'' = xs1 @ xs2" "suffix xs1 body" "prefix xs2 ''.''"
      by (auto simp: sublist_append)
    then show "sublist ''()'' body"
    proof cases
      case 1 then show ?thesis .
    next
      case 2 then show ?thesis by (simp add: sublist_Cons_right)
    next
      case 3
      from 3(3) have "xs2 = [] \<or> xs2 = ''.''" by (cases xs2) (auto simp: prefix_Cons)
      with 3(1) have "xs2 = []" by (auto simp: append_eq_Cons_conv Cons_eq_append_conv)
      with 3 show ?thesis by auto
    qed
  qed (auto simp: sublist_append)
  then show ?thesis
    by (simp add: Contains_sublist sublist_Cons_right)
qed

lemma Contains_hash_capture:
  "Contains (CHR ''/'' # body @ ''.'') ''#'' \<longleftrightarrow> CHR ''#'' \<in> set body"
  by (simp add: Contains_single del: Contains.simps)

lemma TrimSuffix_call:
  "TrimSuffix (body @ ''.'') ''().'' =
     (if suffix ''()'' body then take (length body - 2) body else body @ ''.'')"
proof -
  have "suffix ''().'' (body @ ''.'') \<longleftrightarrow> suffix ''()'' body"
    by (simp add: suffix_to_prefix)
  then show ?thesis by (simp add: TrimSuffix_def numeral_2_eq_2)
qed

lemma extract_shape:
  assumes "CHR 0x60 \<notin> set pre" "pkg \<noteq> []" "CHR 0x60 \<notin> set pkg"
    and "body \<noteq> []" "\<forall>c \<in> set body. segmentChar c" "CHR ''.'' \<notin> set (tl body)"
  shows "extractSymbolsFromOccurrence
           (pre @ CHR 0x60 # pkg @ CHR 0x60 # CHR ''/'' # body @ CHR ''.'' # rest) =
         (if Contains body ''()''
          then (if suffix ''()'' body then take (length body - 2) body else body @ ''.'',
                ''function'')
          else if CHR ''#'' \<in> set body then (body, ''type'')
          else (body, ''constant or variable''))"
proof -
  let ?s = "CHR 0x60 # pkg @ CHR 0x60 # CHR ''/'' # body @ CHR ''.'' # rest"
  let ?cap = "CHR ''/'' # body @ ''.''"
  have "FindAllStringSubmatch (pre @ ?s) = FindAllStringSubmatch ?s"
    using assms(1) by (rule FindAllStringSubmatch_skip)
  also have "\<dots> = [CHR 0x60 # pkg @ CHR 0x60 # ?cap, ?cap] # FindAllStringSubmatch rest"
    using matchHere_run[OF assms(2-6), of rest] by (simp del: matchHere.simps)
  finally have fa: "FindAllStringSubmatch (pre @ ?s) =
      [CHR 0x60 # pkg @ CHR 0x60 # ?cap, ?cap] # FindAllStringSubmatch rest" .
  have tp: "TrimPrefix ?cap ''/'' = body @ ''.''" by (simp add: TrimPrefix_def)
  have ts: "TrimSuffix (body @ ''.'') ''.'' = body" by (simp add: TrimSuffix_def)
  show ?thesis
    unfolding extractSymbolsFromOccurrence_def fa
    by (simp add: determineSymbolType_def Contains_parens_capture Contains_hash_capture tp ts
        TrimSuffix_call Let_def del: Contains.simps)
qed

lemma lazySegment_SomeD:
  "lazySegment cs = Some (m, r) \<Longrightarrow>
   \<exists>bs. cs = bs @ CHR ''.'' # r \<and> m = bs @ ''.'' \<and> list_all segmentChar bs \<and> CHR ''.'' \<notin> set bs"
proof (induction cs arbitrary: m r)
  case Nil
  then show ?case by simp
next
  case (Cons c cs)
  show ?case
  proof (cases "c = CHR ''.''")
    case True
    with Cons.prems show ?thesis by auto
  next
    case False
    with Cons.prems obtain m' where sc: "segmentChar c" and l: "lazySegment cs = Some (m', r)"
      and m: "m = c # m'"
      by (auto split: if_splits option.splits)
    from Cons.IH[OF l] obtain bs where "cs = bs @ CHR ''.'' # r" "m' = bs @ ''.''"
      "list_all segmentChar bs" "CHR ''.'' \<notin> set bs" by blast
    with sc m False have "c # cs = (c # bs) @ CHR ''.'' # r \<and> m = (c # bs) @ ''.'' \<and>
       list_all segmentChar (c # bs) \<and> CHR ''.'' \<notin> set (c # bs)" by simp
    then show ?thesis by blast
  qed
qed

lemma matchGroup_SomeD:
  assumes "matchGroup g = Some (grp, r)"
  shows "\<exists>body. g = CHR ''/'' # body @ CHR ''.'' # r \<and> grp = CHR ''/'' # body @ ''.''
           \<and> body \<noteq> [] \<and> list_all segmentChar body \<and> CHR ''.'' \<notin> set (tl body)"
proof -
  from assms obtain c1 cs m where g: "g = CHR ''/'' # c1 # cs" and sc: "segmentChar c1"
    and l: "lazySegment cs = Some (m, r)" and grp: "grp = CHR ''/'' # c1 # m"
    by (cases g rule: matchGroup.cases) (auto split: if_splits option.splits)
  from lazySegment_SomeD[OF l] obtain bs where "cs = bs @ CHR ''.'' # r" "m = bs @ ''.''"
    "list_all segmentChar bs" "CHR ''.'' \<notin> set bs" by blast
  with g sc grp have "g = CHR ''/'' # (c1 # bs) @ CHR ''.'' # r \<and> grp = CHR ''/'' # (c1 # bs) @ ''.''
           \<and> c1 # bs \<noteq> [] \<and> list_all segmentChar (c1 # bs) \<and> CHR ''.'' \<notin> set (tl (c1 # bs))"
    by simp
  then show ?thesis by blast
qed

lemma matchHere_SomeD:
  assumes "matchHere s = Some (m, r)"
  shows "\<exists>pkg body. matchesAt s [] pkg body r"
proof -
  from assms obtain cs where s: "s = CHR 0x60 # cs"
    by (cases s) (auto split: if_splits)
  let ?run = "takeWhile (\<lambda>x. x \<noteq> CHR 0x60) cs"
  from assms s obtain q g grp where run: "?run \<noteq> []"
    and a: "dropWhile (\<lambda>x. x \<noteq> CHR 0x60) cs = q # g" and g: "matchGroup g = Some (grp, r)"
    by (auto simp: Let_def split: if_splits list.splits option.splits)
  from a have q: "q = CHR 0x60"
    using hd_dropWhile[of "\<lambda>x. x \<noteq> CHR 0x60" cs] by auto
  have cs: "cs = ?run @ q # g" using a takeWhile_dropWhile_id[of "\<lambda>x. x \<noteq> CHR 0x60" cs] by simp
  have nb: "CHR 0x60 \<notin> set ?run" by (auto dest: set_takeWhileD)
  from matchGroup_SomeD[OF g] obtain body where "g = CHR ''/'' # body @ CHR ''.'' # r"
    "body \<noteq> []" "list_all segmentChar body" "CHR ''.'' \<notin> set (tl body)" by blast
  with s cs q run nb have "matchesAt s [] ?run body r"
    unfolding matchesAt_def by (metis append_Nil)
  then show ?thesis by blast
qed

lemma matchesAt_matchHere:
  assumes "matchesAt s pre pkg body rest"
  shows "matchHere (drop (length pre) s) =
           Some ([CHR 0x60 # pkg @ CHR 0x60 # CHR ''/'' # body @ ''.'', CHR ''/'' # body @ ''.''], rest)"
proof -
  from assms have "drop (length pre) s = CHR 0x60 # pkg @ CHR 0x60 # CHR ''/'' # body @ CHR ''.'' # rest"
    by (simp add: matchesAt_def)
  moreover from assms have "pkg \<noteq> []" "CHR 0x60 \<notin> set pkg" "body \<noteq> []"
    "\<forall>c \<in> set body. segmentChar c" "CHR ''.'' \<notin> set (tl body)"
    by (simp_all add: matchesAt_def list_all_iff)
  ultimately show ?thesis using matchHere_run by simp
qed

lemma FindAllStringSubmatch_skip_failed:
  "\<forall>i < length pre. matchHere (drop i (pre @ s)) = None \<Longrightarrow>
   FindAllStringSubmatch (pre @ s) = FindAllStringSubmatch s"
proof (induction pre)
  case Nil
  then show ?case by simp
next
  case (Cons c pre)
  from Cons.prems have 0: "matchHere (c # pre @ s) = None" by force
  have "\<forall>i < length pre. matchHere (drop i (pre @ s)) = None"
  proof (intro allI impI)
    fix i assume "i < length pre"
    then have "Suc i < length (c # pre)" by simp
    with Cons.prems have "matchHere (drop (Suc i) ((c # pre) @ s)) = None" by blast
    then show "matchHere (drop i (pre @ s)) = None" by simp
  qed
  from Cons.IH[OF this] 0 show ?case by (simp del: matchHere.simps)
qed

lemma matchesAt_earlier:
  assumes "matchHere (drop i s) = Some (m, r)" and "i \<le> length s"
  shows "\<exists>pkg body rest. matchesAt s (take i s) pkg body rest"
proof -
  from matchHere_SomeD[OF assms(1)] obtain pkg body where "matchesAt (drop i s) [] pkg body r"
    by blast
  then have "matchesAt s (take i s) pkg body r"
    unfolding matchesAt_def by (metis append_Nil append_take_drop_id)
  then show ?thesis by blast
qed

lemma extract_leftmost:
  assumes m: "matchesAt s pre pkg body rest"
    and least: "\<And>pre' pkg' body' rest'. matchesAt s pre' pkg' body' rest' \<Longrightarrow> length pre \<le> length pre'"
  shows "extractSymbolsFromOccurrence s =
         (if Contains body ''()''
          then (if suffix ''()'' body then take (length body - 2) body else body @ ''.'',
                ''function'')
          else if CHR ''#'' \<in> set body then (body, ''type'')
          else (body, ''constant or variable''))"
proof -
  let ?t = "CHR 0x60 # pkg @ CHR 0x60 # CHR ''/'' # body @ CHR ''.'' # rest"
  let ?cap = "CHR ''/'' # body @ ''.''"
  from m have s: "s = pre @ ?t" by (simp add: matchesAt_def)
  have none: "\<forall>i < length pre. matchHere (drop i (pre @ ?t)) = None"
  proof (intro allI impI)
    fix i assume i: "i < length pre"
    show "matchHere (drop i (pre @ ?t)) = None"
    proof (cases "matchHere (drop i (pre @ ?t))")
      case (Some mr)
      obtain mm r where "mr = (mm, r)" by (cases mr)
      with Some s have "matchHere (drop i s) = Some (mm, r)" by simp
      moreover from i s have "i \<le> length s" by simp
      ultimately obtain pkg' body' rest' where "matchesAt s (take i s) pkg' body' rest'"
        using matchesAt_earlier by blast
      from least[OF this] i s show ?thesis by simp
    qed simp
  qed
  have mh: "matchHere ?t = Some ([CHR 0x60 # pkg @ CHR 0x60 # ?cap, ?cap], rest)"
    using matchesAt_matchHere[OF m] s by simp
  have fa: "FindAllStringSubmatch s = [CHR 0x60 # pkg @ CHR 0x60 # ?cap, ?cap] # FindAllStringSubmatch rest"
    unfolding s FindAllStringSubmatch_skip_failed[OF none]
    using mh by (simp del: matchHere.simps)
  have tp: "TrimPrefix ?cap ''/'' = body @ ''.''" by (simp add: TrimPrefix_def)
  have ts: "TrimSuffix (body @ ''.'') ''.'' = body" by (simp add: TrimSuffix_def)
  show ?thesis
    unfolding extractSymbolsFromOccurrence_def fa
    by (simp add: determineSymbolType_def Contains_parens_capture Contains_hash_capture tp ts
        TrimSuffix_call Let_def del: Contains.simps)
qed

lemma extract_no_match:
  assumes "\<And>pre pkg body rest. \<not> matchesAt s pre pkg body rest"
  shows "extractSymbolsFromOccurrence s = ('''', '''')"
proof -
  have "\<forall>i < length s. matchHere (drop i (s @ [])) = None"
  proof (intro allI impI)
    fix i assume i: "i < length s"
    show "matchHere (drop i (s @ [])) = None"
    proof (cases "matchHere (drop i (s @ []))")
      case (Some mr)
      obtain mm r where "mr = (mm, r)" by (cases mr)
      with Some have "matchHere (drop i s) = Some (mm, r)" by simp
      with i obtain pkg' body' rest' where "matchesAt s (take i s) pkg' body' rest'"
        using matchesAt_earlier[of i s mm r] by auto
      with assms show ?thesis by blast
    qed simp
  qed
  from FindAllStringSubmatch_skip_failed[OF this] have "FindAllStringSubmatch s = []" by simp
  then show ?thesis by (simp add: extractSymbolsFromOccurrence_def)
qed

lemma matchesAt_backtick: "matchesAt s pre pkg body rest \<Longrightarrow> CHR 0x60 \<in> set s"
  by (simp add: matchesAt_def)

lemma leftmost_by_matchHere:
  assumes "\<forall>i < length pre. matchHere (drop i s) = None"
    and "matchesAt s pre' pkg' body' rest'"
  shows "length pre \<le> length pre'"
proof (rule ccontr)
  assume "\<not> length pre \<le> length pre'"
  then have "length pre' < length pre" by simp
  with assms(1) have "matchHere (drop (length pre') s) = None" by blast
  with matchesAt_matchHere[OF assms(2)] show False by simp
qed

lemma leftmost_exists:
  assumes "matchesAt s pre0 pkg0 body0 rest0"
  shows "\<exists>pre pkg body rest. matchesAt s pre pkg body rest
           \<and> (\<forall>pre' pkg' body' rest'. matchesAt s pre' pkg' body' rest' \<longrightarrow> length pre \<le> length pre')"
proof -
  let ?P = "\<lambda>q. case q of (pre, pkg, body, rest) \<Rightarrow> matchesAt s pre pkg body rest"
  from assms have "?P (pre0, pkg0, body0, rest0)" by simp
  from ex_has_least_nat[of ?P _ "\<lambda>q. length (fst q)", OF this]
  obtain q where q: "?P q" and l: "\<forall>y. ?P y \<longrightarrow> length (fst q) \<le> length (fst y)" by blast
  obtain pre pkg body rest where qq: "q = (pre, pkg, body, rest)" by (cases q) auto
  have "\<forall>pre' pkg' body' rest'. matchesAt s pre' pkg' body' rest' \<longrightarrow> length pre \<le> length pre'"
  proof (intro allI impI)
    fix pre' pkg' body' rest' assume "matchesAt s pre' pkg' body' rest'"
    then have "?P (pre', pkg', body', rest')" by simp
    with l qq show "length pre \<le> length pre'" by fastforce
  qed
  with q qq show ?thesis by auto
qed

section \<open>Properties of the definition extractors\<close>

lemma Split_no_sep: "sep \<notin> set l \<Longrightarrow> Split l sep = [l]"
  by (induction l) auto

lemma Split_append_sep: "sep \<notin> set l \<Longrightarrow> Split (l @ sep # rest) sep = l # Split rest sep"
  by (induction l) auto

lemma Split_length2:
  "sep \<notin> set l \<Longrightarrow> 2 \<le> length (Split (l @ sep # rest) sep) \<and> Split (l @ sep # rest) sep ! 1 = hd (Split rest sep)"
  using Split_not_Nil[of rest sep]
  by (cases "Split rest sep") (auto simp: Split_append_sep)

lemma hd_Split_no_sep: "sep \<notin> set l \<Longrightarrow> hd (Split (l @ sep # rest) sep) = l"
  by (simp add: Split_append_sep)

lemma extractSymbolDefinition_one_line:
  "CHR 0x0A \<notin> set l0 \<Longrightarrow> extractSymbolDefinition l0 = ''''"
  by (simp add: extractSymbolDefinition_def Split_no_sep)

lemma extractSymbolDefinition_two_lines:
  "CHR 0x0A \<notin> set l0 \<Longrightarrow> CHR 0x0A \<notin> set l1 \<Longrightarrow> extractSymbolDefinition (l0 @ CHR 0x0A # l1) = l1"
  by (simp add: extractSymbolDefinition_def Split_append_sep Split_no_sep)

lemma extractSymbolDefinition_more_lines:
  "CHR 0x0A \<notin> set l0 \<Longrightarrow> CHR 0x0A \<notin> set l1 \<Longrightarrow>
   extractSymbolDefinition (l0 @ CHR 0x0A # l1 @ CHR 0x0A # rest) = l1"
  by (simp add: extractSymbolDefinition_def Split_append_sep)

lemma Index_lower: "- 1 \<le> Index s sub"
  by (induction s) (auto simp: Let_def)

lemma Index_upper: "0 \<le> Index s sub \<Longrightarrow> Index s sub + int (length sub) \<le> int (length s)"
proof (induction s)
  case Nil
  then show ?case by (simp split: if_splits)
next
  case (Cons c cs)
  show ?case
  proof (cases "prefix sub (c # cs)")
    case True
    then show ?thesis using prefix_length_le[OF True] by simp
  next
    case False
    with Cons show ?thesis by (auto simp: Let_def split: if_splits)
  qed
qed

lemma Contains_length: "Contains s sub \<Longrightarrow> length sub \<le> length s"
  by (simp add: Contains_sublist sublist_length_le)

lemma sliceFrom_func:
  assumes "Contains funcDef ''func''"
  shows "sliceFrom funcDef (Index funcDef ''func '' + 5) =
           Inr (drop (nat (Index funcDef ''func '' + 5)) funcDef)"
proof -
  from Contains_length[OF assms] have len: "4 \<le> length funcDef" by simp
  have lo: "- 1 \<le> Index funcDef ''func ''" by (rule Index_lower)
  have "Index funcDef ''func '' + 5 \<le> int (length funcDef)"
  proof (cases "0 \<le> Index funcDef ''func ''")
    case True
    from Index_upper[OF True] show ?thesis by simp
  next
    case False
    with lo have "Index funcDef ''func '' = - 1" by simp
    with len show ?thesis by simp
  qed
  with lo show ?thesis by (simp add: sliceFrom_def)
qed

lemma extractExportedFunctionSignature_no_panic:
  "extractExportedFunctionSignature s \<noteq> Inl e"
  by (auto simp: extractExportedFunctionSignature_def Let_def sliceFrom_func
      split: list.splits)

lemma extractExportedFunctionSignature_one_line:
  "CHR 0x0A \<notin> set l0 \<Longrightarrow> extractExportedFunctionSignature l0 = Inr ''''"
  by (simp add: extractExportedFunctionSignature_def Split_no_sep)

lemma extractExportedFunctionSignature_no_keyword:
  "CHR 0x0A \<notin> set l0 \<Longrightarrow> CHR 0x0A \<notin> set l1 \<Longrightarrow> \<not> Contains l1 ''func'' \<Longrightarrow>
   extractExportedFunctionSignature (l0 @ CHR 0x0A # l1) = Inr ''''"
  by (simp add: extractExportedFunctionSignature_def Split_append_sep Split_no_sep)

lemma trimLeading_no_match:
  "\<forall>w \<in> set ws. \<not> (w \<noteq> [] \<and> prefix w s) \<Longrightarrow> trimLeading ws s = s"
  by (subst trimLeading.simps) (simp add: find_None_iff[THEN iffD2])

lemma find_SomeD: "find P xs = Some x \<Longrightarrow> x \<in> set xs \<and> P x"
  by (induction xs) (auto split: if_splits)

lemma trimLeading_keeps_last:
  assumes "\<forall>w \<in> set ws. b \<notin> set w"
  shows "\<exists>ys. trimLeading ws (xs @ [b]) = ys @ [b]"
proof (induction "length xs" arbitrary: xs rule: less_induct)
  case less
  show ?case
  proof (cases "find (\<lambda>w. w \<noteq> [] \<and> prefix w (xs @ [b])) ws")
    case None
    then show ?thesis by (subst trimLeading.simps) simp
  next
    case (Some w)
    then have w: "w \<in> set ws" "w \<noteq> []" "prefix w (xs @ [b])"
      by (auto dest: find_SomeD)
    with assms have "b \<notin> set w" by auto
    with w(3) have pw: "prefix w xs"
      by (metis prefix_snoc in_set_conv_decomp append_Nil2 append.assoc list.set_intros(1) set_append Un_iff)
    then have le: "length w \<le> length xs" by (rule prefix_length_le)
    from w(2) pw have lt: "length (drop (length w) xs) < length xs"
      by (cases xs) auto
    from less[OF lt] obtain ys where "trimLeading ws (drop (length w) xs @ [b]) = ys @ [b]"
      by blast
    with Some le show ?thesis by (subst trimLeading.simps) simp
  qed
qed

lemma wordChar_not_space_byte:
  assumes "wordChar b"
  shows "\<forall>w \<in> set spaceRunes. b \<notin> set w"
proof -
  have "of_char b \<notin> {9::nat, 10, 11, 12, 13, 32, 194, 133, 160, 225, 154, 128, 226, 129, 130,
      131, 132, 134, 135, 136, 137, 138, 168, 169, 175, 159, 227}"
    using assms by (auto simp: wordChar_def Let_def)
  then show ?thesis
    by (auto simp: spaceRunes_def)
qed

lemma TrimSpace_word_head:
  assumes "wordChar b"
  shows "\<exists>ys. TrimSpace (b # bs) = b # ys"
proof -
  from wordChar_not_space_byte[OF assms]
  have nb: "\<forall>w \<in> set spaceRunes. b \<notin> set w" .
  then have "\<forall>w \<in> set spaceRunes. \<not> (w \<noteq> [] \<and> prefix w (b # bs))"
    by (metis prefix_Cons list.set_intros(1) neq_Nil_conv)
  then have l: "trimLeading spaceRunes (b # bs) = b # bs"
    by (rule trimLeading_no_match)
  from nb have "\<forall>w \<in> set (map rev spaceRunes). b \<notin> set w" by auto
  from trimLeading_keeps_last[OF this, of "rev bs"]
  obtain ys where "trimLeading (map rev spaceRunes) (rev bs @ [b]) = ys @ [b]" by blast
  with l show ?thesis by (simp add: TrimSpace_def)
qed

lemma prefix_Contains: "prefix p s \<Longrightarrow> Contains s p"
  by (simp add: Contains_sublist)

lemma Index_prefix: "prefix sub s \<Longrightarrow> Index s sub = 0"
  by (cases s) auto

lemma extractExportedFunctionSignature_func_line:
  assumes "CHR 0x0A \<notin> set l0" and "l1 = ''func '' @ b # name @ CHR ''('' # args"
    and "CHR 0x0A \<notin> set l1" and "wordChar b" and "CHR ''('' \<notin> set name"
  shows "extractExportedFunctionSignature (l0 @ CHR 0x0A # l1) = Inr (if IsUpper b then l1 else '''')"
proof -
  have parts: "Split (l0 @ CHR 0x0A # l1) CHR 0x0A = [l0, l1]"
    using assms(1,3) by (simp add: Split_append_sep Split_no_sep)
  have pre: "prefix ''func '' l1" "prefix ''func'' l1" using assms(2) by simp_all
  have c: "Contains l1 ''func''" using pre(2) by (rule prefix_Contains)
  have i: "Index l1 ''func '' = 0" using pre(1) by (rule Index_prefix)
  have d: "drop 5 l1 = (b # name) @ CHR ''('' # args" using assms(2) by simp
  have "b \<noteq> CHR ''(''" using assms(4) by (auto simp: wordChar_def)
  with assms(5) have "CHR ''('' \<notin> set (b # name)" by simp
  then have h: "hd (Split (drop 5 l1) CHR ''('') = b # name"
    unfolding d by (rule hd_Split_no_sep)
  from TrimSpace_word_head[OF assms(4), of name] obtain ys where
    t: "TrimSpace (b # name) = b # ys" by blast
  have s: "sliceFrom l1 5 = Inr (drop 5 l1)"
    using sliceFrom_func[OF c] i by simp
  show ?thesis
    by (simp add: extractExportedFunctionSignature_def parts c i s h t del: Contains.simps)
qed

section \<open>The removal marker\<close>
















section \<open>The unchecked index of \<^verbatim>\<open>getAvailableFunctions\<close>\<close>

lemma availableStep_cases:
  "availableStep functions s =
     (if Documentation s = [] then Inl IndexOutOfRange
      else Inr (if extractExportedFunctionSignature (hd (Documentation s)) = Inr ''''
                then functions
                else AList.update (projr (extractExportedFunctionSignature (hd (Documentation s)))) () functions))"
  using extractExportedFunctionSignature_no_panic
  by (auto simp: availableStep_def split: list.splits sum.splits)

lemma forEach_availableStep_ok:
  "\<forall>s \<in> set syms. Documentation s \<noteq> [] \<Longrightarrow> \<exists>st'. forEach availableStep syms st = Inr st'"
  by (induction syms arbitrary: st) (auto simp: availableStep_cases)

lemma forEach_availableStep_panic:
  "\<exists>s \<in> set syms. Documentation s = [] \<Longrightarrow> forEach availableStep syms st = Inl IndexOutOfRange"
  by (induction syms arbitrary: st) (auto simp: availableStep_cases)

lemma forEach_docs_ok:
  "\<forall>doc \<in> set docs. \<forall>s \<in> set (Symbols doc). Documentation s \<noteq> [] \<Longrightarrow>
   \<exists>st'. forEach (\<lambda>functions doc. forEach availableStep (Symbols doc) functions) docs st = Inr st'"
proof (induction docs arbitrary: st)
  case Nil
  then show ?case by simp
next
  case (Cons doc docs)
  then have "\<forall>s \<in> set (Symbols doc). Documentation s \<noteq> []" by simp
  from forEach_availableStep_ok[OF this, of st] obtain st1 where
    "forEach availableStep (Symbols doc) st = Inr st1" by blast
  with Cons show ?case by simp
qed

lemma forEach_docs_panic:
  "\<exists>doc \<in> set docs. \<exists>s \<in> set (Symbols doc). Documentation s = [] \<Longrightarrow>
   forEach (\<lambda>functions doc. forEach availableStep (Symbols doc) functions) docs st = Inl IndexOutOfRange"
proof (induction docs arbitrary: st)
  case Nil
  then show ?case by simp
next
  case (Cons doc docs)
  show ?case
  proof (cases "\<exists>s \<in> set (Symbols doc). Documentation s = []")
    case True
    then show ?thesis by (simp add: forEach_availableStep_panic)
  next
    case False
    then have "\<forall>s \<in> set (Symbols doc). Documentation s \<noteq> []" by simp
    from forEach_availableStep_ok[OF this, of st] obtain st1 where
      s: "forEach availableStep (Symbols doc) st = Inr st1" by blast
    from False Cons.prems have "\<exists>doc \<in> set docs. \<exists>s \<in> set (Symbols doc). Documentation s = []"
      by auto
    from Cons.IH[OF this] s show ?thesis by simp
  qed
qed

lemma forEach_total:
  "(\<And>st x. \<exists>st'. body st x = Inr st') \<Longrightarrow> \<exists>st'. forEach body xs st = Inr st'"
proof (induction xs arbitrary: st)
  case Nil
  then show ?case by simp
next
  case (Cons x xs)
  from Cons.prems obtain st1 where "body st x = Inr st1" by blast
  with Cons show ?case by simp
qed

lemma recordSignature_total: "\<exists>st'. recordSignature st s = Inr st'"
  using extractExportedFunctionSignature_no_panic
  by (auto simp: recordSignature_def split: list.splits sum.splits)

lemma findUsedFunctions_no_panic:
  "findUsedFunctions readFile unmarshal indexPath oldModuleIndexPath moduleName \<noteq> Inl IndexOutOfRange"
proof -
  have "\<And>docs st. \<exists>st'. forEach (\<lambda>m doc. forEach recordSignature (Symbols doc) m) docs st = Inr st'"
    by (rule forEach_total) (rule forEach_total, rule recordSignature_total)
  then have "\<And>docs st. forEach (\<lambda>m doc. forEach recordSignature (Symbols doc) m) docs st \<noteq> Inl IndexOutOfRange"
    by (metis sum.distinct(1))
  then show ?thesis
    by (auto simp: findUsedFunctions_def Let_def split: option.splits sum.splits)
qed

text \<open>
  Claim C10: \<^verbatim>\<open>getAvailableFunctions\<close> reads \<^verbatim>\<open>sym.Documentation[0]\<close> with no check of the
  length.  Once the index is read and decoded, the call panics with an index out of range
  exactly when some symbol of some document has an empty documentation list, and returns a
  table when every symbol has at least one documentation string.  \<^verbatim>\<open>findUsedFunctions\<close>,
  which checks the length first, never panics on the same index.
\<close>

theorem getAvailableFunctions_panics_iff_no_documentation:
  assumes "readFile indexPath = Some indexData" and "unmarshal indexData = Some index"
  shows "(getAvailableFunctions readFile unmarshal indexPath = Inl IndexOutOfRange \<longleftrightarrow>
            (\<exists>doc \<in> set (Documents index). \<exists>s \<in> set (Symbols doc). Documentation s = []))
       \<and> ((\<forall>doc \<in> set (Documents index). \<forall>s \<in> set (Symbols doc). Documentation s \<noteq> []) \<longrightarrow>
            (\<exists>functions. getAvailableFunctions readFile unmarshal indexPath = Inr functions))
       \<and> findUsedFunctions readFile unmarshal projectPath indexPath moduleName \<noteq> Inl IndexOutOfRange"
proof -
  let ?run = "forEach (\<lambda>functions doc. forEach availableStep (Symbols doc) functions) (Documents index) []"
  have g: "getAvailableFunctions readFile unmarshal indexPath = ?run"
    using assms by (simp add: getAvailableFunctions_def)
  show ?thesis
  proof (cases "\<exists>doc \<in> set (Documents index). \<exists>s \<in> set (Symbols doc). Documentation s = []")
    case True
    from forEach_docs_panic[OF True, of "[]"] True show ?thesis
      unfolding g using findUsedFunctions_no_panic by auto
  next
    case False
    then have all: "\<forall>doc \<in> set (Documents index). \<forall>s \<in> set (Symbols doc). Documentation s \<noteq> []"
      by simp
    from forEach_docs_ok[OF all, of "[]"] obtain st' where "?run = Inr st'" by blast
    with False show ?thesis
      unfolding g using findUsedFunctions_no_panic by auto
  qed
qed

text \<open>Witness for C10: an index whose only symbol has no documentation.\<close>

theorem getAvailableFunctions_panics_iff_no_documentation_witness:
  "getAvailableFunctions (\<lambda>p. Some p)
      (\<lambda>b. Some \<lparr>Documents = [\<lparr>Occurrences = [], Symbols = [\<lparr>Symbol = ''s'', Documentation = []\<rparr>]\<rparr>]\<rparr>)
      ''new.scip'' = Inl IndexOutOfRange
   \<and> findUsedFunctions (\<lambda>p. Some p)
      (\<lambda>b. Some \<lparr>Documents = [\<lparr>Occurrences = [], Symbols = [\<lparr>Symbol = ''s'', Documentation = []\<rparr>]\<rparr>]\<rparr>)
      ''project.scip'' ''new.scip'' ''m'' \<noteq> Inl IndexOutOfRange"
  using getAvailableFunctions_panics_iff_no_documentation[of "\<lambda>p. Some p" "''new.scip''" "''new.scip''"
      "\<lambda>b. Some \<lparr>Documents = [\<lparr>Occurrences = [], Symbols = [\<lparr>Symbol = ''s'', Documentation = []\<rparr>]\<rparr>]\<rparr>"
      "\<lparr>Documents = [\<lparr>Occurrences = [], Symbols = [\<lparr>Symbol = ''s'', Documentation = []\<rparr>]\<rparr>]\<rparr>"
      "''project.scip''" "''m''"]
  by simp

section \<open>Properties of the usage correlator\<close>

lemma joinInner_map_of:
  assumes "distinct (map fst old)"
  shows "map_of (fold (\<lambda>(j, v) resultMap. if Contains j k then AList.update j v resultMap else resultMap)
                   old r0) j =
           (if Contains j k \<and> j \<in> fst ` set old then map_of old j else map_of r0 j)"
  using assms
proof (induction old arbitrary: r0)
  case Nil
  then show ?case by simp
next
  case (Cons e old)
  obtain j0 v0 where e: "e = (j0, v0)" by (cases e)
  from Cons.prems e have d: "distinct (map fst old)" and n: "j0 \<notin> fst ` set old" by auto
  show ?case
    using n by (auto simp: e Cons.IH[OF d] update_conv' image_iff)
qed

lemma joinInner_distinct:
  "distinct (map fst r0) \<Longrightarrow>
   distinct (map fst (fold (\<lambda>(j, v) resultMap. if Contains j k then AList.update j v resultMap else resultMap)
                   old r0))"
  by (induction old arbitrary: r0) (auto simp: distinct_update split: prod.splits)

lemma joinOuter_map_of:
  assumes "distinct (map fst old)"
  shows "map_of (fold (\<lambda>(k, _) resultMap.
             fold (\<lambda>(j, v) resultMap. if Contains j k then AList.update j v resultMap else resultMap)
               old resultMap) used r0) j =
           (if (\<exists>k \<in> fst ` set used. Contains j k) \<and> j \<in> fst ` set old then map_of old j
            else map_of r0 j)"
proof (induction used arbitrary: r0)
  case Nil
  then show ?case by simp
next
  case (Cons e used)
  obtain k0 x where e: "e = (k0, x)" by (cases e)
  show ?case
    by (simp add: e Cons.IH joinInner_map_of[OF assms])
qed

lemma joinOuter_distinct:
  "distinct (map fst r0) \<Longrightarrow>
   distinct (map fst (fold (\<lambda>(k, _) resultMap.
             fold (\<lambda>(j, v) resultMap. if Contains j k then AList.update j v resultMap else resultMap)
               old resultMap) used r0))"
  by (induction used arbitrary: r0) (auto simp: joinInner_distinct split: prod.splits)

lemma resultLoop_map_of:
  assumes "distinct (map fst old)"
  shows "map_of (resultLoop used old) j =
           (if \<exists>k \<in> fst ` set used. Contains j k then map_of old j else None)"
proof -
  have "j \<notin> fst ` set old \<Longrightarrow> map_of old j = None" by (simp add: map_of_eq_None_iff)
  then show ?thesis
    unfolding resultLoop_def joinOuter_map_of[OF assms] by auto
qed

lemma resultLoop_distinct: "distinct (map fst (resultLoop used old))"
  unfolding resultLoop_def by (rule joinOuter_distinct) simp

lemma recordSymbol_distinct: "distinct (map fst m) \<Longrightarrow> distinct (map fst (recordSymbol m s))"
  by (auto simp: recordSymbol_def Let_def distinct_update split: prod.splits list.splits)

lemma symbolsLoop_distinct: "distinct (map fst (symbolsLoop docs))"
proof -
  have inner: "\<And>syms m. distinct (map fst m) \<Longrightarrow>
      distinct (map fst (fold (\<lambda>symInfo m. recordSymbol m symInfo) syms m))"
  proof -
    fix syms :: "SymbolInformation list" and m :: "(string, string list) gomap"
    show "distinct (map fst m) \<Longrightarrow> distinct (map fst (fold (\<lambda>symInfo m. recordSymbol m symInfo) syms m))"
      by (induction syms arbitrary: m) (auto simp: recordSymbol_distinct)
  qed
  have outer: "\<And>m. distinct (map fst m) \<Longrightarrow>
      distinct (map fst (fold (\<lambda>doc m. fold (\<lambda>symInfo m. recordSymbol m symInfo) (Symbols doc) m) docs m))"
    by (induction docs) (auto simp: inner)
  show ?thesis unfolding symbolsLoop_def by (rule outer) simp
qed

lemma changedStep_keys:
  "fst ` set (fst (changedStep new st e)) \<subseteq> insert (fst e) (fst ` set (fst st))"
  "fst ` set (snd (changedStep new st e)) \<subseteq> insert (fst e) (fst ` set (snd st))"
  by (auto simp: changedStep_def markRemoved_def Let_def dom_update[unfolded dom_map_of_conv_image_fst] 
      split: prod.splits option.splits list.splits if_splits)

lemma fold_changedStep_keys:
  "fst ` set (fst (fold (\<lambda>entry st. changedStep new st entry) old st))
     \<subseteq> fst ` set old \<union> fst ` set (fst st)
   \<and> fst ` set (snd (fold (\<lambda>entry st. changedStep new st entry) old st))
     \<subseteq> fst ` set old \<union> fst ` set (snd st)"
proof (induction old arbitrary: st)
  case Nil
  show ?case by simp
next
  case (Cons e old)
  note a = Cons.IH[of "changedStep new st e"] and b = changedStep_keys[of new st e]
  show ?case
  proof
    have "fst ` set (fst (fold (\<lambda>entry st. changedStep new st entry) old (changedStep new st e)))
       \<subseteq> fst ` set old \<union> insert (fst e) (fst ` set (fst st))"
      using a b(1) by blast
    then show "fst ` set (fst (fold (\<lambda>entry st. changedStep new st entry) (e # old) st))
       \<subseteq> fst ` set (e # old) \<union> fst ` set (fst st)" by auto
  next
    have "fst ` set (snd (fold (\<lambda>entry st. changedStep new st entry) old (changedStep new st e)))
       \<subseteq> fst ` set old \<union> insert (fst e) (fst ` set (snd st))"
      using a b(2) by blast
    then show "fst ` set (snd (fold (\<lambda>entry st. changedStep new st entry) (e # old) st))
       \<subseteq> fst ` set (e # old) \<union> fst ` set (snd st)" by auto
  qed
qed

lemma findChangedSymbols_keys:
  "fst ` set (fst (findChangedSymbols old new)) \<union> fst ` set (snd (findChangedSymbols old new))
     \<subseteq> fst ` set old"
  using fold_changedStep_keys[of new old "([], [])"]
  unfolding findChangedSymbols_def by simp

lemma update_keys_image: "fst ` set (AList.update k v al) = insert k (fst ` set al)"
  using dom_update[of k v al] by (simp add: dom_map_of_conv_image_fst)

lemma recordOccurrence_keys:
  "fst ` set (recordOccurrence moduleName used occ) =
     (if Contains (occSymbol occ) moduleName \<and> fst (extractSymbolsFromOccurrence (occSymbol occ)) \<noteq> ''''
      then insert (candidateIdentity (occSymbol occ)) (fst ` set used)
      else fst ` set used)"
proof (cases "extractSymbolsFromOccurrence (occSymbol occ)")
  case (Pair v t)
  then show ?thesis
    by (simp add: recordOccurrence_def candidateIdentity_def Let_def update_keys_image)
qed

lemma occurrences_fold_keys:
  "fst ` set (fold (\<lambda>occ m. recordOccurrence moduleName m occ) occs used) =
     fst ` set used \<union>
     {candidateIdentity (occSymbol occ) | occ. occ \<in> set occs \<and> Contains (occSymbol occ) moduleName
        \<and> fst (extractSymbolsFromOccurrence (occSymbol occ)) \<noteq> ''''}"
proof (induction occs arbitrary: used)
  case Nil
  then show ?case by simp
next
  case (Cons occ occs)
  show ?case
    unfolding fold_simps Cons.IH recordOccurrence_keys by (simp; blast)
qed

lemma documents_fold_keys:
  "fst ` set (fold (\<lambda>doc m. fold (\<lambda>occ m. recordOccurrence moduleName m occ) (Occurrences doc) m) docs used) =
     fst ` set used \<union>
     {candidateIdentity (occSymbol occ) | doc occ. doc \<in> set docs \<and> occ \<in> set (Occurrences doc)
        \<and> Contains (occSymbol occ) moduleName
        \<and> fst (extractSymbolsFromOccurrence (occSymbol occ)) \<noteq> ''''}"
proof (induction docs arbitrary: used)
  case Nil
  then show ?case by simp
next
  case (Cons d docs)
  show ?case
    unfolding fold_simps Cons.IH occurrences_fold_keys by (simp; blast)
qed

lemma usedSymbolsLoop_keys:
  "fst ` set (usedSymbolsLoop moduleName docs) =
     {candidateIdentity (occSymbol occ) | doc occ. doc \<in> set docs \<and> occ \<in> set (Occurrences doc)
        \<and> Contains (occSymbol occ) moduleName
        \<and> fst (extractSymbolsFromOccurrence (occSymbol occ)) \<noteq> ''''}"
  unfolding usedSymbolsLoop_def documents_fold_keys by simp

lemma findUsedSymbols_result:
  assumes "readFile indexPath = Some indexData" "unmarshal indexData = Some index"
    and "readFile oldModuleIndexPath = Some oldModuleIndexData"
    and "unmarshal oldModuleIndexData = Some oldModuleIndex"
  shows "findUsedSymbols readFile unmarshal indexPath oldModuleIndexPath moduleName =
           Inr (resultLoop (usedSymbolsLoop moduleName (Documents index))
                  (symbolsLoop (Documents oldModuleIndex)))"
  using assms by (simp add: findUsedSymbols_def)

lemma findUsedSymbols_InrD:
  assumes "findUsedSymbols readFile unmarshal indexPath oldModuleIndexPath moduleName = Inr usage"
    and "readFile indexPath = Some indexData" "unmarshal indexData = Some index"
  shows "\<exists>oldDocs. usage = resultLoop (usedSymbolsLoop moduleName (Documents index)) (symbolsLoop oldDocs)"
  using assms by (auto simp: findUsedSymbols_def Let_def split: option.splits)

text \<open>
  Claim C5: every key of \<^verbatim>\<open>added\<close> and of \<^verbatim>\<open>removed\<close> is a key of the usage record, for
  every new table; and every key of the usage record contains, as a substring, the
  candidate identity parsed from an occurrence of the consumer index whose descriptor
  contains the module path.
\<close>

theorem diff_keys_within_usage:
  assumes "findUsedSymbols readFile unmarshal indexPath oldModuleIndexPath moduleName = Inr usedSymbols"
    and "readFile indexPath = Some indexData" and "unmarshal indexData = Some index"
  shows "fst ` set (fst (findChangedSymbols usedSymbols newSymbols))
           \<union> fst ` set (snd (findChangedSymbols usedSymbols newSymbols)) \<subseteq> fst ` set usedSymbols
       \<and> (\<forall>j \<in> fst ` set usedSymbols.
            \<exists>doc \<in> set (Documents index). \<exists>occ \<in> set (Occurrences doc).
              Contains (occSymbol occ) moduleName
              \<and> fst (extractSymbolsFromOccurrence (occSymbol occ)) \<noteq> ''''
              \<and> Contains j (candidateIdentity (occSymbol occ)))"
proof
  show "fst ` set (fst (findChangedSymbols usedSymbols newSymbols))
           \<union> fst ` set (snd (findChangedSymbols usedSymbols newSymbols)) \<subseteq> fst ` set usedSymbols"
    by (rule findChangedSymbols_keys)
next
  from findUsedSymbols_InrD[OF assms] obtain oldDocs where
    u: "usedSymbols = resultLoop (usedSymbolsLoop moduleName (Documents index)) (symbolsLoop oldDocs)"
    by blast
  show "\<forall>j \<in> fst ` set usedSymbols.
            \<exists>doc \<in> set (Documents index). \<exists>occ \<in> set (Occurrences doc).
              Contains (occSymbol occ) moduleName
              \<and> fst (extractSymbolsFromOccurrence (occSymbol occ)) \<noteq> ''''
              \<and> Contains j (candidateIdentity (occSymbol occ))"
  proof
    fix j assume "j \<in> fst ` set usedSymbols"
    then have "map_of usedSymbols j \<noteq> None" by (simp add: map_of_eq_None_iff)
    then have "\<exists>k \<in> fst ` set (usedSymbolsLoop moduleName (Documents index)). Contains j k"
      unfolding u resultLoop_map_of[OF symbolsLoop_distinct] by (simp split: if_splits)
    then obtain k where k: "k \<in> fst ` set (usedSymbolsLoop moduleName (Documents index))" "Contains j k"
      by blast
    from k(1) obtain doc occ where "doc \<in> set (Documents index)" "occ \<in> set (Occurrences doc)"
      "Contains (occSymbol occ) moduleName" "fst (extractSymbolsFromOccurrence (occSymbol occ)) \<noteq> ''''"
      "k = candidateIdentity (occSymbol occ)"
      unfolding usedSymbolsLoop_keys by blast
    with k(2) show "\<exists>doc \<in> set (Documents index). \<exists>occ \<in> set (Occurrences doc).
              Contains (occSymbol occ) moduleName
              \<and> fst (extractSymbolsFromOccurrence (occSymbol occ)) \<noteq> ''''
              \<and> Contains j (candidateIdentity (occSymbol occ))" by blast
  qed
qed

text \<open>
  Claim C8: when both indexes are read and decoded, \<^verbatim>\<open>findUsedSymbols\<close> returns a table and
  no error; the table holds, under its full identity, every entry of the old table whose
  identity contains a candidate identity as a substring, and nothing else.  A candidate
  that no identity contains adds nothing.
\<close>

theorem correlator_substring_join:
  assumes "readFile indexPath = Some indexData" and "unmarshal indexData = Some index"
    and "readFile oldModuleIndexPath = Some oldModuleIndexData"
    and "unmarshal oldModuleIndexData = Some oldModuleIndex"
  shows "\<exists>resultMap.
           findUsedSymbols readFile unmarshal indexPath oldModuleIndexPath moduleName = Inr resultMap
         \<and> (\<forall>j. map_of resultMap j =
                  (if \<exists>k \<in> fst ` set (usedSymbolsLoop moduleName (Documents index)). Contains j k
                   then map_of (symbolsLoop (Documents oldModuleIndex)) j
                   else None))"
  using findUsedSymbols_result[OF assms] resultLoop_map_of[OF symbolsLoop_distinct]
  by simp

lemma addedEntry_cong: "map_of new' = map_of new \<Longrightarrow> addedEntry new' k od = addedEntry new k od"
  by (simp add: addedEntry_def)

lemma removedEntry_cong:
  assumes "map_of new' = map_of new"
  shows "removedEntry new' k od = removedEntry new k od"
proof -
  from assms have "dom (map_of new') = dom (map_of new)" by simp
  then have keys: "set (map fst new') = set (map fst new)"
    by (simp add: dom_map_of_conv_image_fst)
  show ?thesis unfolding removedEntry_def assms keys ..
qed

lemma findChangedSymbols_cong:
  assumes "distinct (map fst old)" "distinct (map fst old')" "map_of old' = map_of old"
    and "map_of new' = map_of new"
  shows "map_of (fst (findChangedSymbols old' new')) = map_of (fst (findChangedSymbols old new))"
    and "map_of (snd (findChangedSymbols old' new')) = map_of (snd (findChangedSymbols old new))"
proof -
  have "map_of (fst (findChangedSymbols old' new')) k = map_of (fst (findChangedSymbols old new)) k" for k
    unfolding findChangedSymbols_added[OF assms(2)] findChangedSymbols_added[OF assms(1)]
      assms(3) addedEntry_cong[OF assms(4)] ..
  then show "map_of (fst (findChangedSymbols old' new')) = map_of (fst (findChangedSymbols old new))"
    by (rule ext)
  have "map_of (snd (findChangedSymbols old' new')) k = map_of (snd (findChangedSymbols old new)) k" for k
    unfolding findChangedSymbols_removed[OF assms(2)] findChangedSymbols_removed[OF assms(1)]
      assms(3) removedEntry_cong[OF assms(4)] ..
  then show "map_of (snd (findChangedSymbols old' new')) = map_of (snd (findChangedSymbols old new))"
    by (rule ext)
qed

lemma resultLoop_cong:
  assumes "distinct (map fst old)" "distinct (map fst old')" "map_of old' = map_of old"
    and "map_of used' = map_of used"
  shows "map_of (resultLoop used' old') = map_of (resultLoop used old)"
proof -
  from assms(4) have "dom (map_of used') = dom (map_of used)" by simp
  then have "fst ` set used' = fst ` set used" by (simp add: dom_map_of_conv_image_fst)
  with assms show ?thesis
    by (simp add: fun_eq_iff resultLoop_map_of)
qed

text \<open>
  Claim C9: the maps that the pipeline computes do not depend on the order in which the
  runtime visits a map.  Let a run visit the candidate table, the old table, the new table
  and the usage record in any order (\<^verbatim>\<open>used1\<close>, \<^verbatim>\<open>old1\<close>, \<^verbatim>\<open>new1\<close>, \<^verbatim>\<open>usage1\<close>: the same maps,
  listed in another order).  Its usage record, \<^verbatim>\<open>added\<close> and \<^verbatim>\<open>removed\<close> are, as maps, those
  of the run that visits every table in the order of insertion; so any two runs on the
  same decoded indexes yield equal maps.  The inner loops do not depend on the order
  either: \<^const>\<open>foundLoop\<close> depends on the set of keys only (lemma \<open>foundLoop_iff\<close>) and the
  inner loop of the join on the map only (lemma \<open>joinInner_map_of\<close>).
\<close>

theorem pipeline_iteration_order_independent:
  assumes "map_of used1 = map_of (usedSymbolsLoop moduleName consumerDocs)"
    and "distinct (map fst old1)" and "map_of old1 = map_of (symbolsLoop oldDocs)"
    and "map_of new1 = map_of (symbolsLoop newDocs)"
    and "distinct (map fst usage1)" and "map_of usage1 = map_of (resultLoop used1 old1)"
  shows "map_of (resultLoop used1 old1) =
           map_of (resultLoop (usedSymbolsLoop moduleName consumerDocs) (symbolsLoop oldDocs))
       \<and> map_of (fst (findChangedSymbols usage1 new1)) =
           map_of (fst (findChangedSymbols
                    (resultLoop (usedSymbolsLoop moduleName consumerDocs) (symbolsLoop oldDocs))
                    (symbolsLoop newDocs)))
       \<and> map_of (snd (findChangedSymbols usage1 new1)) =
           map_of (snd (findChangedSymbols
                    (resultLoop (usedSymbolsLoop moduleName consumerDocs) (symbolsLoop oldDocs))
                    (symbolsLoop newDocs)))"
proof -
  have r: "map_of (resultLoop used1 old1) =
           map_of (resultLoop (usedSymbolsLoop moduleName consumerDocs) (symbolsLoop oldDocs))"
    using resultLoop_cong[OF symbolsLoop_distinct assms(2) assms(3) assms(1)] .
  with assms(6) have u: "map_of usage1 =
      map_of (resultLoop (usedSymbolsLoop moduleName consumerDocs) (symbolsLoop oldDocs))" by simp
  from findChangedSymbols_cong[OF resultLoop_distinct assms(5) u assms(4)] r
  show ?thesis by simp
qed

section \<open>The claims on an example\<close>

lemma example_F: "extractSymbolsFromOccurrence ''m `p`/F().'' = (''F'', ''function'')"
  using extract_shape[of "''m ''" "''p''" "''F()''" "''''"]
  by (simp add: segmentChar_def reSpace_def suffix_to_prefix)

lemma example_MustF: "extractSymbolsFromOccurrence ''m `p`/MustF().'' = (''MustF'', ''function'')"
  using extract_shape[of "''m ''" "''p''" "''MustF()''" "''''"]
  by (simp add: segmentChar_def reSpace_def suffix_to_prefix)

lemma example_used: "usedSymbolsLoop ''m'' (Documents exampleConsumer) = [(''F'', [''''])]"
  by (simp add: usedSymbolsLoop_def exampleConsumer_def recordOccurrence_def example_F lookupSlice_def)

lemma example_old:
  "symbolsLoop (Documents exampleOld) =
     [(''F'', [''func F(a)'']), (''MustF'', [''func MustF(a)''])]"
  by (simp add: symbolsLoop_def exampleOld_def recordSymbol_def example_F example_MustF
      lookupSlice_def extractSymbolDefinition_def)

lemma example_new: "symbolsLoop (Documents exampleNew) = [(''F'', [''func F(a, b)''])]"
  by (simp add: symbolsLoop_def exampleNew_def recordSymbol_def example_F lookupSlice_def
      extractSymbolDefinition_def)

lemma example_join:
  "resultLoop [(''F'', [''''])] [(''F'', [''func F(a)'']), (''MustF'', [''func MustF(a)''])] =
     [(''F'', [''func F(a)'']), (''MustF'', [''func MustF(a)''])]"
  by (simp add: resultLoop_def)

lemma example_join_reordered:
  "resultLoop [(''F'', [''''])] [(''MustF'', [''func MustF(a)'']), (''F'', [''func F(a)''])] =
     [(''MustF'', [''func MustF(a)'']), (''F'', [''func F(a)''])]"
  by (simp add: resultLoop_def)

lemma example_usage:
  "findUsedSymbols Some exampleUnmarshal ''c'' ''o'' ''m'' =
     Inr [(''F'', [''func F(a)'']), (''MustF'', [''func MustF(a)''])]"
  by (simp add: findUsedSymbols_def exampleUnmarshal_def example_used example_old example_join)

lemma example_diff:
  "findChangedSymbols [(''F'', [''func F(a)'']), (''MustF'', [''func MustF(a)''])]
     [(''F'', [''func F(a, b)''])] =
     ([(''F'', ''func F(a, b)'')], [(''F'', ''func F(a)''), (''MustF'', ''removed'')])"
  by (simp add: findChangedSymbols_def changedStep_def markRemoved_def difference_def
      lookupBool_def)

lemma example_diff_reordered:
  "findChangedSymbols [(''MustF'', [''func MustF(a)'']), (''F'', [''func F(a)''])]
     [(''F'', [''func F(a, b)''])] =
     ([(''F'', ''func F(a, b)'')], [(''MustF'', ''removed''), (''F'', ''func F(a)'')])"
  by (simp add: findChangedSymbols_def changedStep_def markRemoved_def difference_def
      lookupBool_def)

text \<open>
  Claim C6, as stated: the kind is read off the suffix of the captured component.  It
  fails for a member of a type: the component \<^verbatim>\<open>/T#f.\<close> ends neither in \<^verbatim>\<open>()\<close> nor in
  \<^verbatim>\<open>#\<close>, and the parser still yields the kind \<^verbatim>\<open>type\<close>.
\<close>

theorem classification_by_suffix_counterexample:
  "FindAllStringSubmatch ''m `p`/T#f.'' = [[''`p`/T#f.'', ''/T#f.'']]
   \<and> snd (extractSymbolsFromOccurrence ''m `p`/T#f.'') = ''type''
   \<and> suffixKind ''/T#f.'' = ''constant or variable''"
  by (simp add: extractSymbolsFromOccurrence_def determineSymbolType_def suffixKind_def
      segmentChar_def reSpace_def TrimPrefix_def TrimSuffix_def suffix_to_prefix)

text \<open>
  Claim C6, amended: for every descriptor, when the pattern matches nowhere the result is
  the pair of empty strings; otherwise let the leftmost match capture \<^verbatim>\<open>/body.\<close>  The kind is
  \<^verbatim>\<open>function\<close> when \<^verbatim>\<open>body\<close> contains \<^verbatim>\<open>()\<close> anywhere, else \<^verbatim>\<open>type\<close> when it contains \<^verbatim>\<open>#\<close>
  anywhere, else \<^verbatim>\<open>constant or variable\<close>.  For a type and for a constant or variable the
  value is \<^verbatim>\<open>body\<close>, with any \<^verbatim>\<open>#\<close> kept.  For a function the value is \<^verbatim>\<open>body\<close> without its
  trailing \<^verbatim>\<open>()\<close> when \<^verbatim>\<open>body\<close> ends in \<^verbatim>\<open>()\<close>, and \<^verbatim>\<open>body\<close> followed by the dot when
  \<^verbatim>\<open>()\<close> stands only inside.  A descriptor with a match has a leftmost one.
\<close>

theorem classification_by_containment:
  "(matchesAt s pre pkg body rest
      \<and> (\<forall>pre' pkg' body' rest'. matchesAt s pre' pkg' body' rest' \<longrightarrow> length pre \<le> length pre')
     \<longrightarrow> extractSymbolsFromOccurrence s =
           (if Contains body ''()''
            then (if suffix ''()'' body then take (length body - 2) body else body @ ''.'',
                  ''function'')
            else if CHR ''#'' \<in> set body then (body, ''type'')
            else (body, ''constant or variable'')))
   \<and> ((\<forall>pre pkg body rest. \<not> matchesAt s pre pkg body rest)
     \<longrightarrow> extractSymbolsFromOccurrence s = ('''', ''''))
   \<and> ((\<exists>pre pkg body rest. matchesAt s pre pkg body rest)
     \<longrightarrow> (\<exists>pre pkg body rest. matchesAt s pre pkg body rest
           \<and> (\<forall>pre' pkg' body' rest'. matchesAt s pre' pkg' body' rest' \<longrightarrow> length pre \<le> length pre')))"
proof (intro conjI impI)
  assume a: "matchesAt s pre pkg body rest
      \<and> (\<forall>pre' pkg' body' rest'. matchesAt s pre' pkg' body' rest' \<longrightarrow> length pre \<le> length pre')"
  then have m: "matchesAt s pre pkg body rest" by simp
  from a have l: "\<And>pre' pkg' body' rest'. matchesAt s pre' pkg' body' rest' \<Longrightarrow> length pre \<le> length pre'"
    by blast
  show "extractSymbolsFromOccurrence s =
           (if Contains body ''()''
            then (if suffix ''()'' body then take (length body - 2) body else body @ ''.'',
                  ''function'')
            else if CHR ''#'' \<in> set body then (body, ''type'')
            else (body, ''constant or variable''))"
    using m l by (rule extract_leftmost)
next
  assume "\<forall>pre pkg body rest. \<not> matchesAt s pre pkg body rest"
  then show "extractSymbolsFromOccurrence s = ('''', '''')"
    using extract_no_match by blast
next
  assume "\<exists>pre pkg body rest. matchesAt s pre pkg body rest"
  then show "\<exists>pre pkg body rest. matchesAt s pre pkg body rest
           \<and> (\<forall>pre' pkg' body' rest'. matchesAt s pre' pkg' body' rest' \<longrightarrow> length pre \<le> length pre')"
    using leftmost_exists by blast
qed

text \<open>
  Witness for C6 (amended): a field whose match starts at the second backtick, a method, a
  component with \<^verbatim>\<open>()\<close> inside, and a descriptor without a match.
\<close>

theorem classification_by_containment_witness:
  "matchesAt ''`a`b`/T#f.'' ''`a'' ''b'' ''T#f'' ''''
   \<and> extractSymbolsFromOccurrence ''`a`b`/T#f.'' = (''T#f'', ''type'')
   \<and> matchesAt ''m `p`/T#Method().'' ''m '' ''p'' ''T#Method()'' ''''
   \<and> extractSymbolsFromOccurrence ''m `p`/T#Method().'' = (''T#Method'', ''function'')
   \<and> matchesAt ''m `p`/a()b. x'' ''m '' ''p'' ''a()b'' '' x''
   \<and> extractSymbolsFromOccurrence ''m `p`/a()b. x'' = (''a()b.'', ''function'')
   \<and> extractSymbolsFromOccurrence ''local 3'' = ('''', '''')"
proof -
  have m1: "matchesAt ''`a`b`/T#f.'' ''`a'' ''b'' ''T#f'' ''''"
    by (simp add: matchesAt_def segmentChar_def reSpace_def)
  have n1: "\<forall>i < length ''`a''. matchHere (drop i ''`a`b`/T#f.'') = None"
    by (simp add: less_Suc_eq)
  have l1: "\<forall>pre' pkg' body' rest'. matchesAt ''`a`b`/T#f.'' pre' pkg' body' rest'
              \<longrightarrow> length ''`a'' \<le> length pre'"
    using leftmost_by_matchHere[OF n1] by blast
  have m2: "matchesAt ''m `p`/T#Method().'' ''m '' ''p'' ''T#Method()'' ''''"
    by (simp add: matchesAt_def segmentChar_def reSpace_def)
  have n2: "\<forall>i < length ''m ''. matchHere (drop i ''m `p`/T#Method().'') = None"
    by (simp add: less_Suc_eq)
  have l2: "\<forall>pre' pkg' body' rest'. matchesAt ''m `p`/T#Method().'' pre' pkg' body' rest'
              \<longrightarrow> length ''m '' \<le> length pre'"
    using leftmost_by_matchHere[OF n2] by blast
  have m3: "matchesAt ''m `p`/a()b. x'' ''m '' ''p'' ''a()b'' '' x''"
    by (simp add: matchesAt_def segmentChar_def reSpace_def)
  have n3: "\<forall>i < length ''m ''. matchHere (drop i ''m `p`/a()b. x'') = None"
    by (simp add: less_Suc_eq)
  have l3: "\<forall>pre' pkg' body' rest'. matchesAt ''m `p`/a()b. x'' pre' pkg' body' rest'
              \<longrightarrow> length ''m '' \<le> length pre'"
    using leftmost_by_matchHere[OF n3] by blast
  have n4: "\<forall>pre pkg body rest. \<not> matchesAt ''local 3'' pre pkg body rest"
    using matchesAt_backtick by fastforce
  from classification_by_containment[of "''`a`b`/T#f.''" "''`a''" "''b''" "''T#f''" "''''"] m1 l1
  have r1: "extractSymbolsFromOccurrence ''`a`b`/T#f.'' = (''T#f'', ''type'')"
    by (simp add: suffix_to_prefix)
  from classification_by_containment[of "''m `p`/T#Method().''" "''m ''" "''p''" "''T#Method()''" "''''"] m2 l2
  have r2: "extractSymbolsFromOccurrence ''m `p`/T#Method().'' = (''T#Method'', ''function'')"
    by (simp add: suffix_to_prefix)
  from classification_by_containment[of "''m `p`/a()b. x''" "''m ''" "''p''" "''a()b''" "'' x''"] m3 l3
  have r3: "extractSymbolsFromOccurrence ''m `p`/a()b. x'' = (''a()b.'', ''function'')"
    by (simp add: suffix_to_prefix)
  from classification_by_containment[of "''local 3''"] n4
  have r4: "extractSymbolsFromOccurrence ''local 3'' = ('''', '''')"
    by blast
  from m1 m2 m3 r1 r2 r3 r4 show ?thesis by simp
qed

text \<open>
  Claim C4, at the documentation of an unexported function: \<^verbatim>\<open>extractSymbolDefinition\<close>
  returns the declaration line and \<^verbatim>\<open>symbolsLoop\<close> files the symbol in the table, where the
  claim has the empty string and no entry; \<^verbatim>\<open>extractExportedFunctionSignature\<close> of
  \<^verbatim>\<open>main.go\<close> returns the empty string on the same text.
\<close>

theorem extractSymbolDefinition_keeps_unexported:
  "extractSymbolDefinition ''```go\<newline>func helper()\<newline>```'' = ''func helper()''
   \<and> \<not> IsUpper (CHR ''h'')
   \<and> extractExportedFunctionSignature ''```go\<newline>func helper()\<newline>```'' = Inr ''''
   \<and> symbolsLoop [\<lparr>Occurrences = [],
         Symbols = [\<lparr>Symbol = ''m `p`/helper().'',
                     Documentation = [''```go\<newline>func helper()\<newline>```'']\<rparr>]\<rparr>]
       = [(''helper'', [''func helper()''])]"
  by code_simp

text \<open>Witness for C5, on the example run.\<close>

theorem diff_keys_within_usage_witness:
  "findUsedSymbols Some exampleUnmarshal ''c'' ''o'' ''m'' =
     Inr [(''F'', [''func F(a)'']), (''MustF'', [''func MustF(a)''])]
   \<and> fst ` set (fst (findChangedSymbols [(''F'', [''func F(a)'']), (''MustF'', [''func MustF(a)''])]
                        [(''F'', [''func F(a, b)''])]))
       \<union> fst ` set (snd (findChangedSymbols [(''F'', [''func F(a)'']), (''MustF'', [''func MustF(a)''])]
                        [(''F'', [''func F(a, b)''])]))
       \<subseteq> {''F'', ''MustF''}
   \<and> Contains ''MustF'' (candidateIdentity ''m `p`/F().'')"
proof -
  have r: "Some ''c'' = Some ''c''" by simp
  have u: "exampleUnmarshal ''c'' = Some exampleConsumer" by (simp add: exampleUnmarshal_def)
  from diff_keys_within_usage[OF example_usage r u, of "[(''F'', [''func F(a, b)''])]"]
  show ?thesis
    by (simp add: example_usage exampleConsumer_def)
qed

text \<open>
  Witness for C8, on the example run: the candidate \<^verbatim>\<open>F\<close> brings in the entry of \<^verbatim>\<open>MustF\<close>,
  whose identity contains it and differs from it.
\<close>

theorem correlator_substring_join_witness:
  "findUsedSymbols Some exampleUnmarshal ''c'' ''o'' ''m'' =
     Inr [(''F'', [''func F(a)'']), (''MustF'', [''func MustF(a)''])]
   \<and> Contains ''MustF'' ''F'' \<and> ''MustF'' \<noteq> ''F''
   \<and> map_of (symbolsLoop (Documents exampleOld)) ''MustF'' = Some [''func MustF(a)'']"
proof -
  have r1: "Some ''c'' = Some ''c''" and r2: "Some ''o'' = Some ''o''" by simp_all
  have u1: "exampleUnmarshal ''c'' = Some exampleConsumer"
    and u2: "exampleUnmarshal ''o'' = Some exampleOld" by (simp_all add: exampleUnmarshal_def)
  from correlator_substring_join[OF r1 u1 r2 u2, of "''m''"]
  show ?thesis
    by (simp add: example_usage example_old)
qed

text \<open>
  Witness for C9, on the example run: a run that visits the old table and the usage record
  in the reverse order yields the same maps.
\<close>

theorem pipeline_iteration_order_independent_witness:
  "map_of (resultLoop [(''F'', [''''])] [(''MustF'', [''func MustF(a)'']), (''F'', [''func F(a)''])]) =
     map_of (resultLoop (usedSymbolsLoop ''m'' (Documents exampleConsumer))
               (symbolsLoop (Documents exampleOld)))
   \<and> map_of (snd (findChangedSymbols [(''MustF'', [''func MustF(a)'']), (''F'', [''func F(a)''])]
                      [(''F'', [''func F(a, b)''])])) =
     map_of (snd (findChangedSymbols
                    (resultLoop (usedSymbolsLoop ''m'' (Documents exampleConsumer))
                       (symbolsLoop (Documents exampleOld)))
                    (symbolsLoop (Documents exampleNew))))
   \<and> findChangedSymbols [(''MustF'', [''func MustF(a)'']), (''F'', [''func F(a)''])]
         [(''F'', [''func F(a, b)''])] =
       ([(''F'', ''func F(a, b)'')], [(''MustF'', ''removed''), (''F'', ''func F(a)'')])
   \<and> findChangedSymbols
         (resultLoop (usedSymbolsLoop ''m'' (Documents exampleConsumer))
            (symbolsLoop (Documents exampleOld)))
         (symbolsLoop (Documents exampleNew)) =
       ([(''F'', ''func F(a, b)'')], [(''F'', ''func F(a)''), (''MustF'', ''removed'')])"
proof -
  let ?old1 = "[(''MustF'', [''func MustF(a)'']), (''F'', [''func F(a)''])]"
  have h1: "map_of [(''F'', [''''])] = map_of (usedSymbolsLoop ''m'' (Documents exampleConsumer))"
    by (simp add: example_used)
  have h2: "distinct (map fst ?old1)" by simp
  have h3: "map_of ?old1 = map_of (symbolsLoop (Documents exampleOld))"
    by (auto simp: example_old fun_eq_iff)
  have h4: "map_of [(''F'', [''func F(a, b)''])] = map_of (symbolsLoop (Documents exampleNew))"
    by (simp add: example_new)
  have h5: "distinct (map fst ?old1)" by simp
  have h6: "map_of ?old1 = map_of (resultLoop [(''F'', [''''])] ?old1)"
    by (simp add: example_join_reordered)
  from pipeline_iteration_order_independent[OF h1 h2 h3 h4 h5 h6]
  show ?thesis
    by (simp add: example_used example_old example_new example_join example_diff
        example_diff_reordered)
qed

end
